theory Spec2Isabelle
  imports Main
begin

section \<open>Solidity values, reverts and external calls\<close>

text \<open>
  The contracts are written for Solidity 0.8: every \<open>uint256\<close> operation is checked, and
  an overflow or underflow aborts the call with a panic. Amounts, timestamps and counters are
  natural numbers here, and each arithmetic operation of the source goes through
  \<open>checked_add\<close>, \<open>checked_sub\<close> or \<open>checked_mul\<close>, which fail with \<open>Panic\<close> outside
  the 256-bit range. An address is a number, \<open>address(0)\<close> is \<open>0\<close>.

  \<open>keccak256\<close> is modelled symbolically: \<open>Keccak xs\<close> is the digest of the byte (or
  packed field) sequence \<open>xs\<close>, distinct sequences have distinct digests, and no digest is
  \<open>bytes32(0)\<close>, which is \<open>Zero32\<close>.
\<close>

type_synonym address = nat
type_synonym bytes = "nat list"

datatype bytes32 = Zero32 | Keccak "nat list"

text \<open>
  A call either returns or reverts. \<open>Revert s\<close> is a failed \<open>require\<close> of the repository
  with its reason string, \<open>Panic\<close> a checked-arithmetic failure, and \<open>ExternalFailure\<close> a
  revert raised by code outside the repository (an ERC-20 token, OpenZeppelin's SafeERC20 or
  Ownable, a call whose attached value the caller cannot pay). A reverted call leaves no
  trace: the result \<open>Inl e\<close> carries no state, and the caller keeps the state it had.
\<close>

datatype error = Revert string | Panic | ExternalFailure

definition MAX_UINT256 :: nat where
  "MAX_UINT256 = 2 ^ 256 - 1"

definition checked_add :: "nat \<Rightarrow> nat \<Rightarrow> error + nat" where
  "checked_add a b = (if a + b \<le> MAX_UINT256 then Inr (a + b) else Inl Panic)"

definition checked_sub :: "nat \<Rightarrow> nat \<Rightarrow> error + nat" where
  "checked_sub a b = (if b \<le> a then Inr (a - b) else Inl Panic)"

definition checked_mul :: "nat \<Rightarrow> nat \<Rightarrow> error + nat" where
  "checked_mul a b = (if a * b \<le> MAX_UINT256 then Inr (a * b) else Inl Panic)"

definition bindE :: "error + 'a \<Rightarrow> ('a \<Rightarrow> error + 'b) \<Rightarrow> error + 'b" where
  "bindE m f = (case m of Inl e \<Rightarrow> Inl e | Inr x \<Rightarrow> f x)"

definition require :: "bool \<Rightarrow> string \<Rightarrow> error + 'a \<Rightarrow> error + 'a" where
  "require c reason k = (if c then k else Inl (Revert reason))"

text \<open>
  A movement of funds is \<open>Transfer token from to amount\<close>; the token \<open>0\<close> is native CRO.
  Whether a movement goes through is decided outside the contract (the balance of the
  sender, the code of the recipient, the token contract). That decision is the parameter
  \<open>ok\<close> of every function below: it is asked at the moment of the call and is shown the
  storage of the calling contract as it is at that moment.
\<close>

datatype transfer = Transfer address address address nat

datatype event =
    PaymentCreated bytes32 address address address nat nat
  | PaymentExecuted bytes32 address
  | PaymentCancelled bytes32
  | PaymentRefunded bytes32
  | BatchCreated bytes32 nat
  | BatchExecuted bytes32 nat nat
  | MultiLegTxCreated bytes32 nat
  | MultiLegTxCompleted bytes32
  | MilestoneEscrowCreated bytes32 address address nat
  | MilestoneCompleted bytes32 nat
  | MilestoneReleased bytes32 nat nat
  | AgentSpend address address nat bytes nat
  | PermissionGranted address nat nat nat
  | PermissionRevoked address
  | RecipientAllowed address address
  | RecipientRemoved address address
  | Deposit address nat
  | OwnerWithdraw address nat

datatype effect = Moved transfer | Emit event

type_synonym 's adapter = "transfer \<Rightarrow> 's \<Rightarrow> bool"

text \<open>\<open>recipient.call{value: v}("")\<close> followed by \<open>require(success, reason)\<close>.\<close>

definition send_value :: "'s adapter \<Rightarrow> transfer \<Rightarrow> 's \<Rightarrow> string \<Rightarrow> error + 'a \<Rightarrow> error + 'a" where
  "send_value ok t s reason k = (if ok t s then k else Inl (Revert reason))"

text \<open>\<open>IERC20(token).safeTransfer\<close> and \<open>safeTransferFrom\<close>: the library reverts on failure.\<close>

definition safeTransfer :: "'s adapter \<Rightarrow> transfer \<Rightarrow> 's \<Rightarrow> error + 'a \<Rightarrow> error + 'a" where
  "safeTransfer ok t s k = (if ok t s then k else Inl ExternalFailure)"

text \<open>The value attached to a payable call, as a movement from the caller to the contract.\<close>

definition msg_value :: "address \<Rightarrow> address \<Rightarrow> nat \<Rightarrow> effect list" where
  "msg_value sender this v = (if v = 0 then [] else [Moved (Transfer 0 sender this v)])"

text \<open>Total amount of \<open>token\<close> that a log moves out of \<open>a\<close>, and into \<open>a\<close>.\<close>

fun outflow :: "address \<Rightarrow> address \<Rightarrow> effect list \<Rightarrow> nat" where
  "outflow token a [] = 0"
| "outflow token a (Moved (Transfer tk src dst v) # fx) =
     (if tk = token \<and> src = a then v else 0) + outflow token a fx"
| "outflow token a (Emit e # fx) = outflow token a fx"

fun inflow :: "address \<Rightarrow> address \<Rightarrow> effect list \<Rightarrow> nat" where
  "inflow token a [] = 0"
| "inflow token a (Moved (Transfer tk src dst v) # fx) =
     (if tk = token \<and> dst = a then v else 0) + inflow token a fx"
| "inflow token a (Emit e # fx) = inflow token a fx"

text \<open>The state a caller is left with: the new one after a return, the old one after a revert.\<close>

definition state_after :: "'s \<Rightarrow> error + ('s \<times> effect list \<times> 'r) \<Rightarrow> 's" where
  "state_after s r = (case r of Inl e \<Rightarrow> s | Inr (s', fx, x) \<Rightarrow> s')"

definition succeeds :: "error + 'a \<Rightarrow> bool" where
  "succeeds r = (case r of Inl e \<Rightarrow> False | Inr x \<Rightarrow> True)"

section \<open>AgentPayGateway (contracts/AgentPayGateway.sol, interfaces/IAgentPay.sol)\<close>

datatype PaymentStatus = Pending | Executed | Cancelled | Refunded

record PaymentRequest =
  p_id :: bytes32
  p_from :: address
  p_to :: address
  p_token :: address
  p_amount :: nat
  p_deadline :: nat
  p_conditionHash :: bytes32
  p_status :: PaymentStatus

record gateway =
  g_this :: address
  g_owner :: address
  payments :: "bytes32 \<Rightarrow> PaymentRequest"
  userPayments :: "address \<Rightarrow> bytes32 list"
  authorizedAgents :: "address \<Rightarrow> bool"
  protocolFee :: nat
  feeRecipient :: address
  nonce :: nat

text \<open>A mapping slot that was never written reads as the zero value of its type.\<close>

definition no_payment :: PaymentRequest where
  "no_payment = \<lparr>p_id = Zero32, p_from = 0, p_to = 0, p_token = 0, p_amount = 0,
     p_deadline = 0, p_conditionHash = Zero32, p_status = Pending\<rparr>"

definition gateway_init :: "address \<Rightarrow> address \<Rightarrow> address \<Rightarrow> gateway" where
  "gateway_init this deployer recipient =
     \<lparr>g_this = this, g_owner = deployer, payments = (\<lambda>i. no_payment),
      userPayments = (\<lambda>u. []), authorizedAgents = (\<lambda>a. False), protocolFee = 30,
      feeRecipient = recipient, nonce = 0\<rparr>"

definition setAuthorizedAgent :: "address \<Rightarrow> address \<Rightarrow> bool \<Rightarrow> gateway
    \<Rightarrow> error + (gateway \<times> effect list \<times> unit)" where
  "setAuthorizedAgent sender agent authorized g =
     (if sender \<noteq> g_owner g then Inl ExternalFailure
      else Inr (g\<lparr>authorizedAgents := (authorizedAgents g)(agent := authorized)\<rparr>, [], ()))"

definition setProtocolFee :: "address \<Rightarrow> nat \<Rightarrow> gateway
    \<Rightarrow> error + (gateway \<times> effect list \<times> unit)" where
  "setProtocolFee sender fee g =
     (if sender \<noteq> g_owner g then Inl ExternalFailure
      else require (fee \<le> 500) ''Fee too high''
        (Inr (g\<lparr>protocolFee := fee\<rparr>, [], ())))"

definition createPayment :: "gateway adapter \<Rightarrow> address \<Rightarrow> nat \<Rightarrow> nat \<Rightarrow> address \<Rightarrow> address
    \<Rightarrow> nat \<Rightarrow> nat \<Rightarrow> bytes32 \<Rightarrow> gateway \<Rightarrow> error + (gateway \<times> effect list \<times> bytes32)" where
  "createPayment ok sender val now to token amount deadline conditionHash g =
     require (to \<noteq> 0) ''Invalid recipient''
    (require (amount > 0) ''Invalid amount''
    (require (deadline > now) ''Invalid deadline''
    (bindE (checked_add (nonce g) 1) (\<lambda>nonce'.
       let paymentId = Keccak [sender, to, amount, nonce g, now];
           g1 = g\<lparr>nonce := nonce'\<rparr>;
           g2 = g1\<lparr>payments := (payments g1)(paymentId :=
                     \<lparr>p_id = paymentId, p_from = sender, p_to = to, p_token = token,
                      p_amount = amount, p_deadline = deadline,
                      p_conditionHash = conditionHash, p_status = Pending\<rparr>),
                    userPayments := (userPayments g1)(sender := userPayments g1 sender @ [paymentId])\<rparr>;
           created = Emit (PaymentCreated paymentId sender to token amount deadline)
       in if token = 0 then
            require (val \<ge> amount) ''Insufficient CRO''
              (Inr (g2, msg_value sender (g_this g) val @ [created], paymentId))
          else
            safeTransfer ok (Transfer token sender (g_this g) amount) g1
              (Inr (g2, msg_value sender (g_this g) val
                        @ [Moved (Transfer token sender (g_this g) amount), created], paymentId))))))"

definition executePayment :: "gateway adapter \<Rightarrow> address \<Rightarrow> nat \<Rightarrow> bytes32 \<Rightarrow> bytes \<Rightarrow> gateway
    \<Rightarrow> error + (gateway \<times> effect list \<times> unit)" where
  "executePayment ok sender now paymentId proof g =
     (let payment = payments g paymentId in
      require (p_status payment = Pending) ''Invalid status''
     (require (now \<le> p_deadline payment) ''Payment expired''
     (require (sender = p_from payment \<or> sender = p_to payment \<or> authorizedAgents g sender)
        ''Not authorized''
     (require (p_conditionHash payment = Zero32 \<or> Keccak proof = p_conditionHash payment)
        ''Condition not met''
     (let g1 = g\<lparr>payments := (payments g)(paymentId := payment\<lparr>p_status := Executed\<rparr>)\<rparr> in
      bindE (checked_mul (p_amount payment) (protocolFee g)) (\<lambda>product.
      let fee = product div 10000 in
      bindE (checked_sub (p_amount payment) fee) (\<lambda>netAmount.
      let to_payee = Transfer (p_token payment) (g_this g) (p_to payment) netAmount;
          to_fees = Transfer (p_token payment) (g_this g) (feeRecipient g) fee;
          executed = Emit (PaymentExecuted paymentId sender)
      in if p_token payment = 0 then
           send_value ok to_payee g1 ''CRO transfer failed''
             (if fee > 0 then
                send_value ok to_fees g1 ''Fee transfer failed''
                  (Inr (g1, [Moved to_payee, Moved to_fees, executed], ()))
              else Inr (g1, [Moved to_payee, executed], ()))
         else
           safeTransfer ok to_payee g1
             (if fee > 0 then
                safeTransfer ok to_fees g1
                  (Inr (g1, [Moved to_payee, Moved to_fees, executed], ()))
              else Inr (g1, [Moved to_payee, executed], ())))))))))"

definition cancelPayment :: "gateway adapter \<Rightarrow> address \<Rightarrow> nat \<Rightarrow> bytes32 \<Rightarrow> gateway
    \<Rightarrow> error + (gateway \<times> effect list \<times> unit)" where
  "cancelPayment ok sender now paymentId g =
     (let payment = payments g paymentId in
      require (p_status payment = Pending) ''Invalid status''
     (require (sender = p_from payment) ''Not sender''
     (let g1 = g\<lparr>payments := (payments g)(paymentId := payment\<lparr>p_status := Cancelled\<rparr>)\<rparr>;
          refund = Transfer (p_token payment) (g_this g) (p_from payment) (p_amount payment);
          done = Inr (g1, [Moved refund, Emit (PaymentCancelled paymentId)], ())
      in if p_token payment = 0 then send_value ok refund g1 ''Refund failed'' done
         else safeTransfer ok refund g1 done)))"

definition refundPayment :: "gateway adapter \<Rightarrow> address \<Rightarrow> nat \<Rightarrow> bytes32 \<Rightarrow> gateway
    \<Rightarrow> error + (gateway \<times> effect list \<times> unit)" where
  "refundPayment ok sender now paymentId g =
     (let payment = payments g paymentId in
      require (p_status payment = Pending) ''Invalid status''
     (require (now > p_deadline payment) ''Not expired''
     (let g1 = g\<lparr>payments := (payments g)(paymentId := payment\<lparr>p_status := Refunded\<rparr>)\<rparr>;
          refund = Transfer (p_token payment) (g_this g) (p_from payment) (p_amount payment);
          done = Inr (g1, [Moved refund, Emit (PaymentRefunded paymentId)], ())
      in if p_token payment = 0 then send_value ok refund g1 ''Refund failed'' done
         else safeTransfer ok refund g1 done)))"

text \<open>
  The transactions a gateway can receive, each with its \<open>msg.sender\<close> and, where the
  function reads them, \<open>msg.value\<close> and \<open>block.timestamp\<close>; \<open>gateway_step\<close> is the storage
  after one transaction and \<open>gateway_run\<close> the storage after a sequence of them.
\<close>

datatype gateway_call =
    CreatePayment address nat nat address address nat nat bytes32
  | ExecutePayment address nat bytes32 bytes
  | CancelPayment address nat bytes32
  | RefundPayment address nat bytes32
  | SetAuthorizedAgent address address bool
  | SetProtocolFee address nat

fun gateway_step :: "gateway adapter \<Rightarrow> gateway \<Rightarrow> gateway_call \<Rightarrow> gateway" where
  "gateway_step ok g (CreatePayment sender val now to token amount deadline c) =
     state_after g (createPayment ok sender val now to token amount deadline c g)"
| "gateway_step ok g (ExecutePayment sender now i proof) =
     state_after g (executePayment ok sender now i proof g)"
| "gateway_step ok g (CancelPayment sender now i) = state_after g (cancelPayment ok sender now i g)"
| "gateway_step ok g (RefundPayment sender now i) = state_after g (refundPayment ok sender now i g)"
| "gateway_step ok g (SetAuthorizedAgent sender a b) = state_after g (setAuthorizedAgent sender a b g)"
| "gateway_step ok g (SetProtocolFee sender fee) = state_after g (setProtocolFee sender fee g)"

definition gateway_run :: "gateway adapter \<Rightarrow> gateway \<Rightarrow> gateway_call list \<Rightarrow> gateway" where
  "gateway_run ok g cs = foldl (gateway_step ok) g cs"

text \<open>
  Payment ids come from the gateway's counter: every slot that holds a created payment was
  written under a digest of a counter value below the current one.
\<close>

definition ids_from_counter :: "gateway \<Rightarrow> bool" where
  "ids_from_counter g \<longleftrightarrow>
     (\<forall>i. p_id (payments g i) \<noteq> Zero32 \<longrightarrow>
        (\<exists>s t a n ts. i = Keccak [s, t, a, n, ts] \<and> n < nonce g))"

text \<open>What one transaction can do to the payment table.\<close>

definition table_change :: "gateway \<Rightarrow> gateway \<Rightarrow> bool" where
  "table_change g g' \<longleftrightarrow>
     (payments g' = payments g \<and> nonce g' = nonce g) \<or>
     (\<exists>j st. p_status (payments g j) = Pending \<and> nonce g' = nonce g \<and>
        payments g' = (payments g)(j := (payments g j)\<lparr>p_status := st\<rparr>)) \<or>
     (\<exists>s t a ts pr. p_id pr \<noteq> Zero32 \<and> nonce g' = nonce g + 1 \<and>
        payments g' = (payments g)(Keccak [s, t, a, nonce g, ts] := pr))"

subsection \<open>A concrete gateway\<close>

text \<open>
  An adapter under which every movement goes through, and a gateway at address 100, owned
  by 1, with fee recipient 2, in which payer 10 has created a payment of 1000 native CRO to
  payee 11 at time 5 with deadline 50.
\<close>

definition all_ok :: "'s adapter" where
  "all_ok t s = True"

definition log_of :: "error + ('s \<times> effect list \<times> 'r) \<Rightarrow> effect list" where
  "log_of r = (case r of Inl e \<Rightarrow> [] | Inr (s, fx, x) \<Rightarrow> fx)"

definition demo_gateway :: gateway where
  "demo_gateway = gateway_init 100 1 2"

definition demo_id :: bytes32 where
  "demo_id = Keccak [10, 11, 1000, 0, 5]"

definition demo_paid :: gateway where
  "demo_paid = gateway_step all_ok demo_gateway (CreatePayment 10 1000 5 11 0 1000 50 Zero32)"

subsection \<open>What each gateway function does when it returns\<close>

lemmas sol_defs = require_def bindE_def send_value_def safeTransfer_def
  checked_add_def checked_sub_def checked_mul_def

lemma executePayment_Inr:
  "executePayment ok sender now i pf g = Inr (g', fx, u) \<Longrightarrow>
   g' = g\<lparr>payments := (payments g)(i := (payments g i)\<lparr>p_status := Executed\<rparr>)\<rparr> \<and>
   p_status (payments g i) = Pending"
  by (auto simp: executePayment_def sol_defs Let_def split: if_splits)

lemma cancelPayment_Inr:
  "cancelPayment ok sender now i g = Inr (g', fx, u) \<Longrightarrow>
   g' = g\<lparr>payments := (payments g)(i := (payments g i)\<lparr>p_status := Cancelled\<rparr>)\<rparr> \<and>
   p_status (payments g i) = Pending"
  by (auto simp: cancelPayment_def sol_defs Let_def split: if_splits)

lemma refundPayment_Inr:
  "refundPayment ok sender now i g = Inr (g', fx, u) \<Longrightarrow>
   g' = g\<lparr>payments := (payments g)(i := (payments g i)\<lparr>p_status := Refunded\<rparr>)\<rparr> \<and>
   p_status (payments g i) = Pending"
  by (auto simp: refundPayment_def sol_defs Let_def split: if_splits)

lemma createPayment_Inr:
  "createPayment ok sender v now to token amount deadline c g = Inr (g', fx, i) \<Longrightarrow>
   i = Keccak [sender, to, amount, nonce g, now] \<and>
   g' = g\<lparr>nonce := nonce g + 1,
          payments := (payments g)(i := \<lparr>p_id = i, p_from = sender, p_to = to, p_token = token,
                      p_amount = amount, p_deadline = deadline,
                      p_conditionHash = c, p_status = Pending\<rparr>),
          userPayments := (userPayments g)(sender := userPayments g sender @ [i])\<rparr>"
  by (auto simp: createPayment_def sol_defs Let_def split: if_splits)

lemma setAuthorizedAgent_Inr:
  "setAuthorizedAgent sender a b g = Inr (g', fx, u) \<Longrightarrow>
   payments g' = payments g \<and> nonce g' = nonce g"
  by (auto simp: setAuthorizedAgent_def split: if_splits)

lemma setProtocolFee_Inr:
  "setProtocolFee sender fee g = Inr (g', fx, u) \<Longrightarrow>
   payments g' = payments g \<and> nonce g' = nonce g"
  by (auto simp: setProtocolFee_def sol_defs split: if_splits)

lemma table_change_refl: "table_change g g"
  by (simp add: table_change_def)

lemma table_change_create:
  assumes "p_id pr \<noteq> Zero32" and "nonce g' = nonce g + 1"
    and "payments g' = (payments g)(Keccak [s, t, a, nonce g, ts] := pr)"
  shows "table_change g g'"
  unfolding table_change_def using assms by blast

lemma table_change_status:
  assumes "p_status (payments g j) = Pending"
  shows "table_change g (g\<lparr>payments := (payments g)(j := (payments g j)\<lparr>p_status := st\<rparr>)\<rparr>)"
  unfolding table_change_def using assms by auto

lemma table_change_same:
  assumes "payments g' = payments g" and "nonce g' = nonce g"
  shows "table_change g g'"
  unfolding table_change_def using assms by simp

lemma gateway_step_change: "table_change g (gateway_step ok g c)"
proof (cases c)
  case (CreatePayment sender v now to token amount deadline cond)
  show ?thesis
  proof (cases "createPayment ok sender v now to token amount deadline cond g")
    case (Inl e)
    with CreatePayment show ?thesis by (simp add: state_after_def table_change_refl)
  next
    case (Inr r)
    obtain g' fx j where r: "r = (g', fx, j)" by (cases r)
    from createPayment_Inr[OF Inr[unfolded r]] CreatePayment Inr r show ?thesis
      by (auto simp: state_after_def intro!: table_change_create)
  qed
next
  case (ExecutePayment sender now j pf)
  then show ?thesis using executePayment_Inr[of ok sender now j pf g]
    by (cases "executePayment ok sender now j pf g") (auto simp: state_after_def table_change_refl table_change_status)
next
  case (CancelPayment sender now j)
  then show ?thesis using cancelPayment_Inr[of ok sender now j g]
    by (cases "cancelPayment ok sender now j g") (auto simp: state_after_def table_change_refl table_change_status)
next
  case (RefundPayment sender now j)
  then show ?thesis using refundPayment_Inr[of ok sender now j g]
    by (cases "refundPayment ok sender now j g") (auto simp: state_after_def table_change_refl table_change_status)
next
  case (SetAuthorizedAgent sender a b)
  then show ?thesis using setAuthorizedAgent_Inr[of sender a b g]
    by (cases "setAuthorizedAgent sender a b g") (auto simp: state_after_def table_change_refl table_change_same)
next
  case (SetProtocolFee sender fee)
  then show ?thesis using setProtocolFee_Inr[of sender fee g]
    by (cases "setProtocolFee sender fee g") (auto simp: state_after_def table_change_refl table_change_same)
qed

lemma ids_from_counter_change:
  assumes "ids_from_counter g" and "table_change g g'"
  shows "ids_from_counter g'"
  using assms unfolding ids_from_counter_def table_change_def
  by (auto simp: less_Suc_eq split: if_splits)

lemma ids_from_counter_init: "ids_from_counter (gateway_init this deployer recipient)"
  by (simp add: ids_from_counter_def gateway_init_def no_payment_def)

lemma ids_from_counter_step: "ids_from_counter g \<Longrightarrow> ids_from_counter (gateway_step ok g c)"
  using ids_from_counter_change gateway_step_change by blast

lemma executed_change:
  assumes "ids_from_counter g" and "table_change g g'"
    and "p_id (payments g i) \<noteq> Zero32" and "p_status (payments g i) = Executed"
  shows "p_id (payments g' i) \<noteq> Zero32 \<and> p_status (payments g' i) = Executed"
  using assms unfolding ids_from_counter_def table_change_def
  by (auto split: if_splits)

lemma executed_run:
  assumes "ids_from_counter g" and "p_id (payments g i) \<noteq> Zero32"
    and "p_status (payments g i) = Executed"
  shows "p_status (payments (gateway_run ok g cs) i) = Executed"
proof -
  have "ids_from_counter (foldl (gateway_step ok) g cs) \<and>
        p_id (payments (foldl (gateway_step ok) g cs) i) \<noteq> Zero32 \<and>
        p_status (payments (foldl (gateway_step ok) g cs) i) = Executed"
    using assms
  proof (induction cs arbitrary: g)
    case Nil
    then show ?case by simp
  next
    case (Cons c cs)
    have "ids_from_counter (gateway_step ok g c)"
      using Cons.prems(1) by (rule ids_from_counter_step)
    moreover have "p_id (payments (gateway_step ok g c) i) \<noteq> Zero32 \<and>
        p_status (payments (gateway_step ok g c) i) = Executed"
      using executed_change[OF Cons.prems(1) gateway_step_change Cons.prems(2,3)] .
    ultimately show ?case using Cons.IH by simp
  qed
  then show ?thesis by (simp add: gateway_run_def)
qed

lemma executePayment_not_pending:
  "p_status (payments g i) \<noteq> Pending \<Longrightarrow>
   executePayment ok sender now i pf g = Inl (Revert ''Invalid status'')"
  by (simp add: executePayment_def require_def Let_def)

lemma executePayment_adapter:
  assumes "\<And>t g'. p_status (payments g' i) = Executed \<Longrightarrow> ok' t g' = ok t g'"
  shows "executePayment ok' sender now i pf g = executePayment ok sender now i pf g"
  using assms by (simp add: executePayment_def sol_defs Let_def)

subsection \<open>No double execution\<close>

text \<open>
  Claim C1. A payment that was created by the gateway is executed at most once. When
  \<open>executePayment\<close> returns, the payment's status is \<open>Executed\<close>; after any further
  sequence of transactions (creations, executions, cancellations, refunds, owner settings),
  every \<open>executePayment\<close> on the same id, by any caller at any time with any proof, reverts
  with "Invalid status". The status is written before funds move: the adapter is only ever
  asked about a movement in a storage where the payment is already \<open>Executed\<close>, so two
  adapters that agree on such storages give the same execution.
\<close>

theorem executePayment_at_most_once:
  assumes "ids_from_counter g" and "p_id (payments g i) \<noteq> Zero32"
    and "executePayment ok sender now i pf g = Inr (g', fx, u)"
  shows "p_status (payments g' i) = Executed \<and>
    (\<forall>cs ok' sender' now' pf'.
       executePayment ok' sender' now' i pf' (gateway_run ok g' cs) = Inl (Revert ''Invalid status'')) \<and>
    (\<forall>ok'. (\<forall>t s. p_status (payments s i) = Executed \<longrightarrow> ok' t s = ok t s) \<longrightarrow>
       executePayment ok' sender now i pf g = Inr (g', fx, u))"
proof -
  from executePayment_Inr[OF assms(3)]
  have g': "g' = g\<lparr>payments := (payments g)(i := (payments g i)\<lparr>p_status := Executed\<rparr>)\<rparr>" by simp
  have st: "p_status (payments g' i) = Executed" by (simp add: g')
  have idn: "p_id (payments g' i) \<noteq> Zero32" using assms(2) by (simp add: g')
  have inv: "ids_from_counter g'"
    using ids_from_counter_step[OF assms(1), of ok "ExecutePayment sender now i pf"] assms(3)
    by (simp add: state_after_def)
  have again: "executePayment ok' sender' now' i pf' (gateway_run ok g' cs) = Inl (Revert ''Invalid status'')"
    for cs ok' sender' now' pf'
    using executed_run[OF inv idn st, of ok cs] by (simp add: executePayment_not_pending)
  have order: "executePayment ok' sender now i pf g = Inr (g', fx, u)"
    if "\<forall>t s. p_status (payments s i) = Executed \<longrightarrow> ok' t s = ok t s" for ok'
    using executePayment_adapter[of i ok' ok sender now pf g] that assms(3) by simp
  from st again order show ?thesis by blast
qed

lemma demo_paid_eq:
  "demo_paid = demo_gateway\<lparr>nonce := 1,
          payments := (payments demo_gateway)(demo_id := \<lparr>p_id = demo_id, p_from = 10, p_to = 11, p_token = 0,
                      p_amount = 1000, p_deadline = 50,
                      p_conditionHash = Zero32, p_status = Pending\<rparr>),
          userPayments := (userPayments demo_gateway)(10 := [demo_id])\<rparr>"
  by (simp add: demo_paid_def demo_gateway_def gateway_init_def demo_id_def createPayment_def sol_defs MAX_UINT256_def Let_def state_after_def msg_value_def)

lemma demo_execute:
  "executePayment all_ok 11 6 demo_id [] demo_paid =
     Inr (demo_paid\<lparr>payments := (payments demo_paid)(demo_id := (payments demo_paid demo_id)\<lparr>p_status := Executed\<rparr>)\<rparr>,
          [Moved (Transfer 0 100 11 997), Moved (Transfer 0 100 2 3), Emit (PaymentExecuted demo_id 11)], ())"
  by (simp add: demo_paid_eq demo_gateway_def gateway_init_def executePayment_def sol_defs MAX_UINT256_def Let_def all_ok_def)

theorem executePayment_at_most_once_witness:
  "succeeds (executePayment all_ok 11 6 demo_id [] demo_paid) \<and>
   executePayment all_ok 10 7 demo_id []
     (gateway_run all_ok (state_after demo_paid (executePayment all_ok 11 6 demo_id [] demo_paid))
        [CreatePayment 10 1000 7 11 0 1000 50 Zero32, ExecutePayment 11 7 demo_id []])
   = Inl (Revert ''Invalid status'')"
proof -
  have a: "ids_from_counter demo_paid"
    unfolding demo_paid_def demo_gateway_def by (intro ids_from_counter_step ids_from_counter_init)
  have b: "p_id (payments demo_paid demo_id) \<noteq> Zero32"
    by (simp add: demo_paid_eq demo_id_def)
  show ?thesis
    using executePayment_at_most_once[OF a b demo_execute]
    by (simp add: demo_execute succeeds_def state_after_def)
qed

subsection \<open>Cancellation and the deadline\<close>

lemma cancelPayment_any_time:
  "cancelPayment ok sender now i g = cancelPayment ok sender now' i g"
  by (simp add: cancelPayment_def)

text \<open>
  Claim C3. \<open>cancelPayment\<close> checks the status and the caller, and nothing else: its
  result does not depend on the time (\<open>cancelPayment_any_time\<close>). The payer of the
  concrete payment, whose deadline is 50, cancels it at time 60 and is refunded the full
  1000: the call returns although the deadline has passed.
\<close>

theorem cancelPayment_after_deadline:
  "p_deadline (payments demo_paid demo_id) = 50 \<and>
   cancelPayment all_ok 10 60 demo_id demo_paid =
     Inr (demo_paid\<lparr>payments := (payments demo_paid)
            (demo_id := (payments demo_paid demo_id)\<lparr>p_status := Cancelled\<rparr>)\<rparr>,
          [Moved (Transfer 0 100 10 1000), Emit (PaymentCancelled demo_id)], ())"
  by (simp add: demo_paid_eq demo_gateway_def gateway_init_def cancelPayment_def sol_defs
      Let_def all_ok_def)

subsection \<open>Fee, net amount and what the payer paid\<close>

text \<open>
  The creation of the concrete payment of 1000, with 1001 of CRO attached to the call.
\<close>

definition demo_overpaid :: "error + (gateway \<times> effect list \<times> bytes32)" where
  "demo_overpaid = createPayment all_ok 10 1001 5 11 0 1000 50 Zero32 demo_gateway"

lemma executePayment_log:
  assumes "executePayment ok sender now i pf g = Inr (g', fx, u)"
  shows "(p_amount (payments g i) * protocolFee g) div 10000 \<le> p_amount (payments g i) \<and>
     fx = Moved (Transfer (p_token (payments g i)) (g_this g) (p_to (payments g i))
                   (p_amount (payments g i) - (p_amount (payments g i) * protocolFee g) div 10000))
          # (if (p_amount (payments g i) * protocolFee g) div 10000 > 0
             then [Moved (Transfer (p_token (payments g i)) (g_this g) (feeRecipient g)
                     ((p_amount (payments g i) * protocolFee g) div 10000))]
             else [])
          @ [Emit (PaymentExecuted i sender)]"
  using assms by (auto simp: executePayment_def sol_defs Let_def split: if_splits)

lemma createPayment_log:
  assumes "createPayment ok sender v now to token amount deadline c g = Inr (g', fx, j)"
  shows "fx = msg_value sender (g_this g) v
           @ (if token = 0 then [] else [Moved (Transfer token sender (g_this g) amount)])
           @ [Emit (PaymentCreated j sender to token amount deadline)] \<and>
         (token = 0 \<longrightarrow> amount \<le> v)"
  using assms by (auto simp: createPayment_def sol_defs Let_def split: if_splits)

text \<open>
  Claim C7, as amended. When \<open>executePayment\<close> returns, the fee is
  \<open>amount * protocolFee div 10000\<close>, the net amount is \<open>amount - fee\<close>, the two add up
  to the amount, the net amount goes to the payee and the fee (when positive) to the fee
  recipient, and the gateway pays out exactly the amount. When \<open>createPayment\<close> returns,
  the payment records the payer and the amount; an ERC-20 payment took exactly the
  amount of the token from the payer, a native payment took \<open>msg.value\<close>, which is at
  least the amount.
\<close>

theorem payment_conservation:
  "(executePayment ok sender now i pf g = Inr (g', fx, u) \<longrightarrow>
      (\<exists>fee netAmount.
         fee = (p_amount (payments g i) * protocolFee g) div 10000 \<and>
         netAmount = p_amount (payments g i) - fee \<and>
         p_amount (payments g i) = netAmount + fee \<and>
         fx = Moved (Transfer (p_token (payments g i)) (g_this g) (p_to (payments g i)) netAmount)
              # (if fee > 0
                 then [Moved (Transfer (p_token (payments g i)) (g_this g) (feeRecipient g) fee)]
                 else [])
              @ [Emit (PaymentExecuted i sender)] \<and>
         outflow (p_token (payments g i)) (g_this g) fx = p_amount (payments g i))) \<and>
   (createPayment ok' payer v now' to token amount deadline c g0 = Inr (g1, fx1, j) \<longrightarrow>
      p_from (payments g1 j) = payer \<and> p_amount (payments g1 j) = amount \<and>
      (if token = 0 then outflow 0 payer fx1 = v \<and> amount \<le> v
       else outflow token payer fx1 = amount))"
proof (intro conjI impI)
  assume ex: "executePayment ok sender now i pf g = Inr (g', fx, u)"
  from executePayment_log[OF ex] show "\<exists>fee netAmount.
         fee = (p_amount (payments g i) * protocolFee g) div 10000 \<and>
         netAmount = p_amount (payments g i) - fee \<and>
         p_amount (payments g i) = netAmount + fee \<and>
         fx = Moved (Transfer (p_token (payments g i)) (g_this g) (p_to (payments g i)) netAmount)
              # (if fee > 0
                 then [Moved (Transfer (p_token (payments g i)) (g_this g) (feeRecipient g) fee)]
                 else [])
              @ [Emit (PaymentExecuted i sender)] \<and>
         outflow (p_token (payments g i)) (g_this g) fx = p_amount (payments g i)"
    by auto
next
  assume cr: "createPayment ok' payer v now' to token amount deadline c g0 = Inr (g1, fx1, j)"
  from createPayment_Inr[OF cr] show "p_from (payments g1 j) = payer" by simp
  from createPayment_Inr[OF cr] show "p_amount (payments g1 j) = amount" by simp
  from createPayment_log[OF cr]
  show "if token = 0 then outflow 0 payer fx1 = v \<and> amount \<le> v
       else outflow token payer fx1 = amount"
    by (auto simp: msg_value_def)
qed

lemma demo_overpaid_eq:
  "demo_overpaid = Inr (demo_paid, [Moved (Transfer 0 10 100 1001),
      Emit (PaymentCreated demo_id 10 11 0 1000 50)], demo_id)"
  by (simp add: demo_overpaid_def demo_paid_eq demo_gateway_def gateway_init_def demo_id_def createPayment_def
      sol_defs MAX_UINT256_def Let_def msg_value_def)

text \<open>
  The claim as stated fails for a native payment created with more value than its amount:
  1001 left the payer, the payment records 1000, and its execution pays out 1000.
\<close>

theorem payment_conservation_counterexample:
  "succeeds demo_overpaid \<and>
   outflow 0 10 (log_of demo_overpaid) = 1001 \<and>
   p_amount (payments (state_after demo_gateway demo_overpaid) demo_id) = 1000 \<and>
   succeeds (executePayment all_ok 11 6 demo_id [] (state_after demo_gateway demo_overpaid)) \<and>
   outflow 0 100 (log_of (executePayment all_ok 11 6 demo_id []
                    (state_after demo_gateway demo_overpaid))) = 1000"
proof -
  have "p_amount (payments demo_paid demo_id) = 1000" by (simp add: demo_paid_eq)
  then show ?thesis
    by (simp add: demo_overpaid_eq demo_execute succeeds_def log_of_def state_after_def)
qed

theorem payment_conservation_witness:
  "succeeds (executePayment all_ok 11 6 demo_id [] demo_paid) \<and>
   succeeds demo_overpaid \<and>
   (\<exists>fee netAmount. fee = 3 \<and> netAmount = 997 \<and> (1000::nat) = netAmount + fee \<and>
      log_of (executePayment all_ok 11 6 demo_id [] demo_paid) =
        [Moved (Transfer 0 100 11 netAmount), Moved (Transfer 0 100 2 fee),
         Emit (PaymentExecuted demo_id 11)]) \<and>
   outflow 0 10 (log_of demo_overpaid) = 1001 \<and> (1000::nat) \<le> 1001"
proof -
  have "p_amount (payments demo_paid demo_id) = 1000" "protocolFee demo_paid = 30"
    "p_token (payments demo_paid demo_id) = 0" "g_this demo_paid = 100"
    "p_to (payments demo_paid demo_id) = 11" "feeRecipient demo_paid = 2"
    by (simp_all add: demo_paid_eq demo_gateway_def gateway_init_def)
  then show ?thesis
    using payment_conservation[of all_ok 11 6 demo_id "[]" demo_paid _ _ "()" all_ok 10 1001 5 11 0
        1000 50 Zero32 demo_gateway demo_paid _ demo_id]
    by (simp add: demo_execute demo_overpaid_eq[unfolded demo_overpaid_def] succeeds_def log_of_def
         demo_overpaid_def)
qed

section \<open>AgentWallet (the contract AgentWallet of the repository)\<close>

record SpendPermission =
  active :: bool
  maxPerTx :: nat
  dailyLimit :: nat
  spentToday :: nat
  lastResetTime :: nat
  totalSpent :: nat
  txCount :: nat
  expiry :: nat

text \<open>
  The wallet's storage, its own address and its native balance, which \<open>agentExecute\<close>,
  \<open>withdraw\<close> and \<open>canSpend\<close> read as \<open>address(this).balance\<close>.
\<close>

record wallet =
  w_this :: address
  w_balance :: nat
  owner :: address
  permissions :: "address \<Rightarrow> SpendPermission"
  allowedRecipients :: "address \<Rightarrow> address \<Rightarrow> bool"
  hasAllowlist :: "address \<Rightarrow> bool"
  agents :: "address list"
  isAgent :: "address \<Rightarrow> bool"

definition no_permission :: SpendPermission where
  "no_permission = \<lparr>active = False, maxPerTx = 0, dailyLimit = 0, spentToday = 0,
     lastResetTime = 0, totalSpent = 0, txCount = 0, expiry = 0\<rparr>"

definition wallet_init :: "address \<Rightarrow> address \<Rightarrow> wallet" where
  "wallet_init this deployer =
     \<lparr>w_this = this, w_balance = 0, owner = deployer, permissions = (\<lambda>a. no_permission),
      allowedRecipients = (\<lambda>a r. False), hasAllowlist = (\<lambda>a. False), agents = [],
      isAgent = (\<lambda>a. False)\<rparr>"

text \<open>
  \<open>to.call{value: amount}(data)\<close>. The callee decides whether the call succeeds and what
  it returns; it is shown the wallet's storage at the moment of the call. A call cannot
  carry more value than the wallet holds. The value leaves the wallet's balance unless the
  wallet calls itself.
\<close>

type_synonym callee = "address \<Rightarrow> nat \<Rightarrow> bytes \<Rightarrow> wallet \<Rightarrow> bytes option"

definition call_value :: "callee \<Rightarrow> address \<Rightarrow> nat \<Rightarrow> bytes \<Rightarrow> wallet \<Rightarrow> (wallet \<times> bytes) option" where
  "call_value ext to amount data w =
     (if amount \<le> w_balance w then
        (case ext to amount data w of
           None \<Rightarrow> None
         | Some result \<Rightarrow>
             Some (if to = w_this w then w else w\<lparr>w_balance := w_balance w - amount\<rparr>, result))
      else None)"

definition ONE_DAY :: nat where
  "ONE_DAY = 86400"

definition onlyOwner :: "address \<Rightarrow> wallet \<Rightarrow> error + 'a \<Rightarrow> error + 'a" where
  "onlyOwner sender w k = require (sender = owner w) ''Not owner'' k"

definition onlyActiveAgent :: "address \<Rightarrow> nat \<Rightarrow> wallet \<Rightarrow> error + 'a \<Rightarrow> error + 'a" where
  "onlyActiveAgent sender now w k =
     (let perm = permissions w sender in
      require (active perm) ''Not an active agent''
     (require (expiry perm = 0 \<or> now < expiry perm) ''Permission expired'' k))"

definition grantPermission :: "address \<Rightarrow> nat \<Rightarrow> address \<Rightarrow> nat \<Rightarrow> nat \<Rightarrow> nat \<Rightarrow> wallet
    \<Rightarrow> error + (wallet \<times> effect list \<times> unit)" where
  "grantPermission sender now agent maxPerTx' dailyLimit' durationSeconds w =
     onlyOwner sender w
    (require (agent \<noteq> 0) ''Invalid agent''
    (require (maxPerTx' > 0) ''maxPerTx must be > 0''
    (require (dailyLimit' \<ge> maxPerTx') ''dailyLimit must be >= maxPerTx''
    (bindE (if durationSeconds > 0 then checked_add now durationSeconds else Inr 0) (\<lambda>expiry'.
       let w1 = w\<lparr>permissions := (permissions w)(agent :=
                   \<lparr>active = True, maxPerTx = maxPerTx', dailyLimit = dailyLimit',
                    spentToday = 0, lastResetTime = now,
                    totalSpent = totalSpent (permissions w agent),
                    txCount = txCount (permissions w agent), expiry = expiry'\<rparr>)\<rparr>;
           w2 = (if \<not> isAgent w1 agent
                 then w1\<lparr>agents := agents w1 @ [agent], isAgent := (isAgent w1)(agent := True)\<rparr>
                 else w1)
       in Inr (w2, [Emit (PermissionGranted agent maxPerTx' dailyLimit' expiry')], ()))))))"

definition revokePermission :: "address \<Rightarrow> address \<Rightarrow> wallet
    \<Rightarrow> error + (wallet \<times> effect list \<times> unit)" where
  "revokePermission sender agent w =
     onlyOwner sender w
       (Inr (w\<lparr>permissions := (permissions w)(agent := (permissions w agent)\<lparr>active := False\<rparr>)\<rparr>,
             [Emit (PermissionRevoked agent)], ()))"

definition addAllowedRecipient :: "address \<Rightarrow> address \<Rightarrow> address \<Rightarrow> wallet
    \<Rightarrow> error + (wallet \<times> effect list \<times> unit)" where
  "addAllowedRecipient sender agent recipient w =
     onlyOwner sender w
    (require (isAgent w agent) ''Not an agent''
       (Inr (w\<lparr>allowedRecipients := (allowedRecipients w)
                   (agent := (allowedRecipients w agent)(recipient := True)),
               hasAllowlist := (hasAllowlist w)(agent := True)\<rparr>,
             [Emit (RecipientAllowed agent recipient)], ())))"

definition removeAllowedRecipient :: "address \<Rightarrow> address \<Rightarrow> address \<Rightarrow> wallet
    \<Rightarrow> error + (wallet \<times> effect list \<times> unit)" where
  "removeAllowedRecipient sender agent recipient w =
     onlyOwner sender w
       (Inr (w\<lparr>allowedRecipients := (allowedRecipients w)
                   (agent := (allowedRecipients w agent)(recipient := False))\<rparr>,
             [Emit (RecipientRemoved agent recipient)], ()))"

definition withdraw :: "callee \<Rightarrow> address \<Rightarrow> address \<Rightarrow> nat \<Rightarrow> wallet
    \<Rightarrow> error + (wallet \<times> effect list \<times> unit)" where
  "withdraw ext sender to amount w =
     onlyOwner sender w
    (require (to \<noteq> 0) ''Invalid recipient''
    (require (amount \<le> w_balance w) ''Insufficient balance''
    (case call_value ext to amount [] w of
       None \<Rightarrow> Inl (Revert ''Transfer failed'')
     | Some (w1, result) \<Rightarrow>
         Inr (w1, [Moved (Transfer 0 (w_this w) to amount), Emit (OwnerWithdraw to amount)], ()))))"

definition transferOwnership :: "address \<Rightarrow> address \<Rightarrow> wallet
    \<Rightarrow> error + (wallet \<times> effect list \<times> unit)" where
  "transferOwnership sender newOwner w =
     onlyOwner sender w
    (require (newOwner \<noteq> 0) ''Invalid owner''
       (Inr (w\<lparr>owner := newOwner\<rparr>, [], ())))"

text \<open>\<open>receive()\<close>: a plain transfer of value into the wallet.\<close>

definition receive_value :: "address \<Rightarrow> nat \<Rightarrow> wallet \<Rightarrow> error + (wallet \<times> effect list \<times> unit)" where
  "receive_value sender val w =
     Inr (w\<lparr>w_balance := w_balance w + val\<rparr>,
          msg_value sender (w_this w) val @ [Emit (Deposit sender val)], ())"

text \<open>
  The block "Reset daily limit if new day" shared by \<open>agentExecute\<close> and
  \<open>agentExecuteBatch\<close>.
\<close>

definition daily_reset :: "nat \<Rightarrow> SpendPermission \<Rightarrow> error + SpendPermission" where
  "daily_reset now perm =
     bindE (checked_add (lastResetTime perm) ONE_DAY) (\<lambda>resetAt.
       Inr (if now \<ge> resetAt then perm\<lparr>spentToday := 0, lastResetTime := now\<rparr> else perm))"

definition agentExecute :: "callee \<Rightarrow> address \<Rightarrow> nat \<Rightarrow> address \<Rightarrow> nat \<Rightarrow> bytes \<Rightarrow> wallet
    \<Rightarrow> error + (wallet \<times> effect list \<times> bytes)" where
  "agentExecute ext sender now to amount data w =
     onlyActiveAgent sender now w
    (bindE (daily_reset now (permissions w sender)) (\<lambda>perm.
     require (amount \<le> maxPerTx perm) ''Exceeds per-tx limit''
    (bindE (checked_add (spentToday perm) amount) (\<lambda>spent.
     require (spent \<le> dailyLimit perm) ''Exceeds daily limit''
    (require (amount \<le> w_balance w) ''Insufficient wallet balance''
    (require (\<not> hasAllowlist w sender \<or> allowedRecipients w sender to) ''Recipient not allowed''
    (bindE (checked_add (spentToday perm) amount) (\<lambda>spentToday'.
     bindE (checked_add (totalSpent perm) amount) (\<lambda>totalSpent'.
     bindE (checked_add (txCount perm) 1) (\<lambda>txCount'.
     let perm' = perm\<lparr>spentToday := spentToday', totalSpent := totalSpent', txCount := txCount'\<rparr> in
     bindE (checked_sub (dailyLimit perm') (spentToday perm')) (\<lambda>dailyRemaining.
     let w1 = w\<lparr>permissions := (permissions w)(sender := perm')\<rparr> in
     case call_value ext to amount data w1 of
       None \<Rightarrow> Inl (Revert ''Transaction failed'')
     | Some (w2, result) \<Rightarrow>
         Inr (w2, [Moved (Transfer 0 (w_this w) to amount),
                   Emit (AgentSpend sender to amount data dailyRemaining)], result))))))))))))"

fun batch_total :: "nat \<Rightarrow> nat list \<Rightarrow> nat \<Rightarrow> error + nat" where
  "batch_total limit [] totalAmount = Inr totalAmount"
| "batch_total limit (a # amounts) totalAmount =
     require (a \<le> limit) ''Single tx exceeds per-tx limit''
       (bindE (checked_add totalAmount a) (\<lambda>totalAmount'. batch_total limit amounts totalAmount'))"

fun batch_calls :: "callee \<Rightarrow> address \<Rightarrow> (address \<times> nat \<times> bytes) list \<Rightarrow> wallet \<Rightarrow> effect list
    \<Rightarrow> error + (wallet \<times> effect list)" where
  "batch_calls ext sender [] w fx = Inr (w, fx)"
| "batch_calls ext sender ((target, amount, data) # rest) w fx =
     require (\<not> hasAllowlist w sender \<or> allowedRecipients w sender target) ''Recipient not allowed''
       (case call_value ext target amount data w of
          None \<Rightarrow> Inl (Revert ''Batch tx failed'')
        | Some (w1, result) \<Rightarrow>
            batch_calls ext sender rest w1
              (fx @ [Moved (Transfer 0 (w_this w) target amount),
                     Emit (AgentSpend sender target amount data 0)]))"

definition agentExecuteBatch :: "callee \<Rightarrow> address \<Rightarrow> nat \<Rightarrow> address list \<Rightarrow> nat list \<Rightarrow> bytes list
    \<Rightarrow> wallet \<Rightarrow> error + (wallet \<times> effect list \<times> bool list)" where
  "agentExecuteBatch ext sender now targets amounts datas w =
     onlyActiveAgent sender now w
    (require (length targets = length amounts \<and> length amounts = length datas) ''Length mismatch''
    (bindE (daily_reset now (permissions w sender)) (\<lambda>perm.
     bindE (batch_total (maxPerTx perm) amounts 0) (\<lambda>totalAmount.
     bindE (checked_add (spentToday perm) totalAmount) (\<lambda>spent.
     require (spent \<le> dailyLimit perm) ''Exceeds daily limit''
    (require (totalAmount \<le> w_balance w) ''Insufficient wallet balance''
    (let w1 = w\<lparr>permissions := (permissions w)(sender := perm)\<rparr> in
     bindE (batch_calls ext sender (zip targets (zip amounts datas)) w1 []) (\<lambda>(w2, fx).
     bindE (checked_add (spentToday perm) totalAmount) (\<lambda>spentToday'.
     bindE (checked_add (totalSpent perm) totalAmount) (\<lambda>totalSpent'.
     bindE (checked_add (txCount perm) (length targets)) (\<lambda>txCount'.
       Inr (w2\<lparr>permissions := (permissions w2)(sender :=
                  perm\<lparr>spentToday := spentToday', totalSpent := totalSpent', txCount := txCount'\<rparr>)\<rparr>,
            fx, replicate (length targets) True))))))))))))"

definition canSpend :: "nat \<Rightarrow> address \<Rightarrow> nat \<Rightarrow> wallet \<Rightarrow> error + (bool \<times> string)" where
  "canSpend now agent amount w =
     (let perm = permissions w agent in
      if \<not> active perm then Inr (False, ''Agent not active'')
      else if expiry perm > 0 \<and> now \<ge> expiry perm then Inr (False, ''Permission expired'')
      else if amount > maxPerTx perm then Inr (False, ''Exceeds per-tx limit'')
      else if amount > w_balance w then Inr (False, ''Insufficient wallet balance'')
      else bindE (checked_add (lastResetTime perm) ONE_DAY) (\<lambda>resetAt.
        let spentToday' = (if now \<ge> resetAt then 0 else spentToday perm) in
        bindE (checked_add spentToday' amount) (\<lambda>spent.
          if spent > dailyLimit perm then Inr (False, ''Exceeds daily limit'')
          else Inr (True, ''OK''))))"

datatype wallet_call =
    GrantPermission address nat address nat nat nat
  | RevokePermission address address
  | AddAllowedRecipient address address address
  | RemoveAllowedRecipient address address address
  | Withdraw address address nat
  | TransferOwnership address address
  | Receive address nat
  | AgentExecute address nat address nat bytes
  | AgentExecuteBatch address nat "address list" "nat list" "bytes list"

fun wallet_step :: "callee \<Rightarrow> wallet \<Rightarrow> wallet_call \<Rightarrow> wallet" where
  "wallet_step ext w (GrantPermission sender now agent m d secs) =
     state_after w (grantPermission sender now agent m d secs w)"
| "wallet_step ext w (RevokePermission sender agent) = state_after w (revokePermission sender agent w)"
| "wallet_step ext w (AddAllowedRecipient sender agent r) =
     state_after w (addAllowedRecipient sender agent r w)"
| "wallet_step ext w (RemoveAllowedRecipient sender agent r) =
     state_after w (removeAllowedRecipient sender agent r w)"
| "wallet_step ext w (Withdraw sender to amount) = state_after w (withdraw ext sender to amount w)"
| "wallet_step ext w (TransferOwnership sender newOwner) =
     state_after w (transferOwnership sender newOwner w)"
| "wallet_step ext w (Receive sender val) = state_after w (receive_value sender val w)"
| "wallet_step ext w (AgentExecute sender now to amount data) =
     state_after w (agentExecute ext sender now to amount data w)"
| "wallet_step ext w (AgentExecuteBatch sender now targets amounts datas) =
     state_after w (agentExecuteBatch ext sender now targets amounts datas w)"

definition wallet_run :: "callee \<Rightarrow> wallet \<Rightarrow> wallet_call list \<Rightarrow> wallet" where
  "wallet_run ext w cs = foldl (wallet_step ext) w cs"

section \<open>Who may execute a payment\<close>

text \<open>
  The claim's "agent holding an active SpendPermission covering this payee", in the
  wallet's terms: the permission is active and unexpired, and the payee passes the
  agent's allowlist.
\<close>

definition holds_permission :: "wallet \<Rightarrow> nat \<Rightarrow> address \<Rightarrow> address \<Rightarrow> bool" where
  "holds_permission w now agent payee \<longleftrightarrow>
     active (permissions w agent) \<and>
     (expiry (permissions w agent) = 0 \<or> now < expiry (permissions w agent)) \<and>
     (\<not> hasAllowlist w agent \<or> allowedRecipients w agent payee)"

text \<open>
  The concrete gateway after its owner has flagged address 77 as an authorized agent, and
  a wallet at address 200, owned by 1, whose owner has granted agent 88 a permission
  (500 per transaction, 5000 per day, no expiry, no allowlist).
\<close>

definition demo_agents :: gateway where
  "demo_agents = gateway_step all_ok demo_paid (SetAuthorizedAgent 1 77 True)"

definition demo_wallet :: wallet where
  "demo_wallet = wallet_step (\<lambda>to amount data w. Some []) (wallet_init 200 1)
     (GrantPermission 1 0 88 500 5000 0)"

text \<open>
  Claim C4, as amended. For a Pending payment that is not past its deadline,
  \<open>executePayment\<close> returns only when the caller is the payer, the payee or an address
  that the gateway's owner has flagged in \<open>authorizedAgents\<close>; any other caller is
  rejected with "Not authorized" and the storage is unchanged.
\<close>

theorem executePayment_authorization:
  assumes "p_status (payments g i) = Pending" and "now \<le> p_deadline (payments g i)"
  shows "(succeeds (executePayment ok sender now i pf g) \<longrightarrow>
            sender = p_from (payments g i) \<or> sender = p_to (payments g i) \<or>
            authorizedAgents g sender) \<and>
         (\<not> (sender = p_from (payments g i) \<or> sender = p_to (payments g i) \<or>
             authorizedAgents g sender) \<longrightarrow>
            executePayment ok sender now i pf g = Inl (Revert ''Not authorized'') \<and>
            state_after g (executePayment ok sender now i pf g) = g)"
  using assms by (auto simp: executePayment_def require_def Let_def succeeds_def state_after_def)

lemma demo_agents_eq:
  "demo_agents = demo_paid\<lparr>authorizedAgents := (authorizedAgents demo_paid)(77 := True)\<rparr>"
  by (simp add: demo_agents_def setAuthorizedAgent_def state_after_def demo_paid_eq demo_gateway_def gateway_init_def)

lemma demo_agents_payment:
  "payments demo_agents demo_id = \<lparr>p_id = demo_id, p_from = 10, p_to = 11, p_token = 0,
                      p_amount = 1000, p_deadline = 50,
                      p_conditionHash = Zero32, p_status = Pending\<rparr>"
  "authorizedAgents demo_agents = (\<lambda>a. a = 77)"
  "protocolFee demo_agents = 30"
  by (auto simp add: demo_agents_eq demo_paid_eq demo_gateway_def gateway_init_def fun_eq_iff)

lemma demo_wallet_perm:
  "permissions demo_wallet 88 = \<lparr>active = True, maxPerTx = 500, dailyLimit = 5000,
      spentToday = 0, lastResetTime = 0, totalSpent = 0, txCount = 0, expiry = 0\<rparr>"
  "hasAllowlist demo_wallet = (\<lambda>a. False)"
  "permissions demo_wallet 77 = no_permission"
  by (simp_all add: demo_wallet_def wallet_init_def grantPermission_def onlyOwner_def sol_defs state_after_def Let_def no_permission_def)

text \<open>
  The claim as stated fails in both directions: address 77 holds no SpendPermission in the
  wallet and executes the payment, because the gateway's owner flagged it; agent 88 holds
  an active, unexpired permission that covers the payee and is rejected.
\<close>

theorem executePayment_authorization_counterexample:
  "succeeds (executePayment all_ok 77 6 demo_id [] demo_agents) \<and>
   77 \<noteq> p_from (payments demo_agents demo_id) \<and> 77 \<noteq> p_to (payments demo_agents demo_id) \<and>
   \<not> holds_permission demo_wallet 6 77 (p_to (payments demo_agents demo_id)) \<and>
   holds_permission demo_wallet 6 88 (p_to (payments demo_agents demo_id)) \<and>
   executePayment all_ok 88 6 demo_id [] demo_agents = Inl (Revert ''Not authorized'')"
  by (simp add: executePayment_def sol_defs Let_def succeeds_def demo_agents_payment all_ok_def
       holds_permission_def demo_wallet_perm no_permission_def MAX_UINT256_def)

theorem executePayment_authorization_witness:
  "p_status (payments demo_agents demo_id) = Pending \<and> (6::nat) \<le> p_deadline (payments demo_agents demo_id) \<and>
   succeeds (executePayment all_ok 77 6 demo_id [] demo_agents) \<and> authorizedAgents demo_agents 77 \<and>
   executePayment all_ok 88 6 demo_id [] demo_agents = Inl (Revert ''Not authorized'') \<and>
   state_after demo_agents (executePayment all_ok 88 6 demo_id [] demo_agents) = demo_agents"
proof -
  have a: "p_status (payments demo_agents demo_id) = Pending" by (simp add: demo_agents_payment)
  have b: "(6::nat) \<le> p_deadline (payments demo_agents demo_id)" by (simp add: demo_agents_payment)
  have c: "succeeds (executePayment all_ok 77 6 demo_id [] demo_agents)"
    by (simp add: executePayment_def sol_defs Let_def succeeds_def demo_agents_payment all_ok_def MAX_UINT256_def)
  from a b c executePayment_authorization[OF a b, of all_ok 88 "[]"]
  show ?thesis by (simp add: demo_agents_payment state_after_def)
qed

subsection \<open>Spending limits\<close>

text \<open>
  \<open>spentToday\<close> as a spend at time \<open>now\<close> sees it: 0 once a day has passed since
  \<open>lastResetTime\<close>.
\<close>

definition spentToday_at :: "nat \<Rightarrow> SpendPermission \<Rightarrow> nat" where
  "spentToday_at now perm = (if now \<ge> lastResetTime perm + ONE_DAY then 0 else spentToday perm)"

text \<open>
  The checks of \<open>agentExecute\<close> that come before its allowlist check: the permission is
  active and unexpired, the amount is within the per-transaction limit, the daily limit and
  the wallet's balance. The last line keeps the counters inside 256 bits.
\<close>

definition within_limits :: "nat \<Rightarrow> address \<Rightarrow> nat \<Rightarrow> wallet \<Rightarrow> bool" where
  "within_limits now agent amount w \<longleftrightarrow>
     active (permissions w agent) \<and>
     (expiry (permissions w agent) = 0 \<or> now < expiry (permissions w agent)) \<and>
     amount \<le> maxPerTx (permissions w agent) \<and>
     spentToday_at now (permissions w agent) + amount \<le> dailyLimit (permissions w agent) \<and>
     amount \<le> w_balance w \<and>
     lastResetTime (permissions w agent) + ONE_DAY \<le> MAX_UINT256 \<and>
     spentToday_at now (permissions w agent) + amount \<le> MAX_UINT256"

definition counters_fit :: "address \<Rightarrow> nat \<Rightarrow> wallet \<Rightarrow> bool" where
  "counters_fit agent amount w \<longleftrightarrow>
     totalSpent (permissions w agent) + amount \<le> MAX_UINT256 \<and>
     txCount (permissions w agent) + 1 \<le> MAX_UINT256"

text \<open>The permission record that a successful spend of \<open>amount\<close> at \<open>now\<close> stores.\<close>

definition after_spend :: "nat \<Rightarrow> nat \<Rightarrow> SpendPermission \<Rightarrow> SpendPermission" where
  "after_spend now amount perm =
     (if now \<ge> lastResetTime perm + ONE_DAY then perm\<lparr>spentToday := 0, lastResetTime := now\<rparr>
      else perm)
     \<lparr>spentToday := spentToday_at now perm + amount,
      totalSpent := totalSpent perm + amount,
      txCount := txCount perm + 1\<rparr>"

lemma after_spend_fields:
  "spentToday (after_spend now amount perm) = spentToday_at now perm + amount"
  "lastResetTime (after_spend now amount perm) =
     (if now \<ge> lastResetTime perm + ONE_DAY then now else lastResetTime perm)"
  "totalSpent (after_spend now amount perm) = totalSpent perm + amount"
  "txCount (after_spend now amount perm) = txCount perm + 1"
  "dailyLimit (after_spend now amount perm) = dailyLimit perm"
  "maxPerTx (after_spend now amount perm) = maxPerTx perm"
  "active (after_spend now amount perm) = active perm"
  "expiry (after_spend now amount perm) = expiry perm"
  by (simp_all add: after_spend_def)

lemmas wallet_defs = onlyOwner_def onlyActiveAgent_def daily_reset_def call_value_def

lemma agentExecute_Inr:
  assumes "agentExecute ext a now to amount data w = Inr (w', fx, r)"
  shows "within_limits now a amount w \<and> counters_fit a amount w \<and>
         (\<not> hasAllowlist w a \<or> allowedRecipients w a to) \<and>
         permissions w' = (permissions w)(a := after_spend now amount (permissions w a)) \<and>
         hasAllowlist w' = hasAllowlist w \<and> allowedRecipients w' = allowedRecipients w \<and>
         isAgent w' = isAgent w \<and> owner w' = owner w \<and>
         fx = [Moved (Transfer 0 (w_this w) to amount),
               Emit (AgentSpend a to amount data
                 (dailyLimit (permissions w a) - (spentToday_at now (permissions w a) + amount)))]"
  using assms
  by (auto simp: agentExecute_def wallet_defs sol_defs Let_def within_limits_def counters_fit_def
        spentToday_at_def after_spend_def split: if_splits option.splits)

lemma agentExecute_not_allowed:
  assumes "within_limits now a amount w" and "hasAllowlist w a" and "\<not> allowedRecipients w a to"
  shows "agentExecute ext a now to amount data w = Inl (Revert ''Recipient not allowed'')"
  using assms
  by (auto simp: agentExecute_def wallet_defs sol_defs Let_def within_limits_def
        spentToday_at_def split: if_splits)


lemma agentExecute_succeeds:
  assumes "within_limits now a amount w" and "counters_fit a amount w"
    and "\<not> hasAllowlist w a \<or> allowedRecipients w a to"
    and "ext to amount data (w\<lparr>permissions := (permissions w)(a := after_spend now amount (permissions w a))\<rparr>) = Some r"
  shows "succeeds (agentExecute ext a now to amount data w)"
  using assms
  by (auto simp: agentExecute_def wallet_defs sol_defs Let_def within_limits_def counters_fit_def
        spentToday_at_def succeeds_def after_spend_def split: if_splits)


subsection \<open>What the other wallet functions leave alone\<close>

lemma batch_calls_frame:
  "batch_calls ext a xs w fx = Inr (w', fx') \<Longrightarrow>
   permissions w' = permissions w \<and> hasAllowlist w' = hasAllowlist w \<and>
   allowedRecipients w' = allowedRecipients w"
proof (induction xs arbitrary: w fx)
  case Nil
  then show ?case by simp
next
  case (Cons x xs)
  obtain t v d where x: "x = (t, v, d)" by (cases x)
  from Cons.prems x obtain w1 r where
    c: "call_value ext t v d w = Some (w1, r)"
    and rest: "batch_calls ext a xs w1
        (fx @ [Moved (Transfer 0 (w_this w) t v), Emit (AgentSpend a t v d 0)]) = Inr (w', fx')"
    by (auto simp: require_def split: if_splits option.splits)
  from c have "permissions w1 = permissions w \<and> hasAllowlist w1 = hasAllowlist w \<and>
     allowedRecipients w1 = allowedRecipients w"
    by (auto simp: call_value_def split: if_splits option.splits)
  with Cons.IH[OF rest] show ?case by simp
qed

lemma agentExecuteBatch_Inr:
  assumes "agentExecuteBatch ext a now targets amounts datas w = Inr (w', fx, r)"
  shows "hasAllowlist w' = hasAllowlist w \<and> allowedRecipients w' = allowedRecipients w \<and>
     (\<forall>b. b \<noteq> a \<longrightarrow> permissions w' b = permissions w b) \<and>
     spentToday (permissions w' a) \<le> dailyLimit (permissions w' a)"
  using assms
  by (auto simp: agentExecuteBatch_def wallet_defs sol_defs Let_def
        split: if_splits sum.splits prod.splits dest!: batch_calls_frame)


text \<open>Every permission's \<open>spentToday\<close> is within its \<open>dailyLimit\<close>.\<close>

definition spent_within_limit :: "wallet \<Rightarrow> bool" where
  "spent_within_limit w \<longleftrightarrow>
     (\<forall>a. spentToday (permissions w a) \<le> dailyLimit (permissions w a))"

lemma wallet_step_frame:
  "hasAllowlist w a \<longrightarrow> hasAllowlist (wallet_step ext w c) a"
  "spent_within_limit w \<longrightarrow> spent_within_limit (wallet_step ext w c)"
proof -
  have "(hasAllowlist w a \<longrightarrow> hasAllowlist (wallet_step ext w c) a) \<and>
        (spent_within_limit w \<longrightarrow> spent_within_limit (wallet_step ext w c))"
  proof (cases c)
    case (AgentExecute sender now to amount data)
    show ?thesis
    proof (cases "agentExecute ext sender now to amount data w")
      case (Inl e)
      with AgentExecute show ?thesis by (simp add: state_after_def)
    next
      case (Inr res)
      obtain w' fx r where res: "res = (w', fx, r)" by (cases res)
      from agentExecute_Inr[OF Inr[unfolded res]] AgentExecute Inr res show ?thesis
        by (auto simp: state_after_def spent_within_limit_def after_spend_fields within_limits_def)
    qed
  next
    case (AgentExecuteBatch sender now targets amounts datas)
    show ?thesis
    proof (cases "agentExecuteBatch ext sender now targets amounts datas w")
      case (Inl e)
      with AgentExecuteBatch show ?thesis by (simp add: state_after_def)
    next
      case (Inr res)
      obtain w' fx r where res: "res = (w', fx, r)" by (cases res)
      from agentExecuteBatch_Inr[OF Inr[unfolded res]] AgentExecuteBatch Inr res show ?thesis
        by (auto simp: state_after_def spent_within_limit_def)
    qed
  qed (auto simp: state_after_def spent_within_limit_def grantPermission_def revokePermission_def
        addAllowedRecipient_def removeAllowedRecipient_def withdraw_def transferOwnership_def
        receive_value_def wallet_defs sol_defs Let_def split: if_splits option.splits)
  then show "hasAllowlist w a \<longrightarrow> hasAllowlist (wallet_step ext w c) a"
    "spent_within_limit w \<longrightarrow> spent_within_limit (wallet_step ext w c)" by simp_all
qed


lemma wallet_run_limit:
  "spent_within_limit w \<Longrightarrow> spent_within_limit (wallet_run ext w cs)"
  unfolding wallet_run_def
  by (induction cs arbitrary: w) (simp_all add: wallet_step_frame)

lemma wallet_init_limit: "spent_within_limit (wallet_init this deployer)"
  by (simp add: spent_within_limit_def wallet_init_def no_permission_def)


lemma removeAllowedRecipient_Inr:
  "removeAllowedRecipient sender agent recipient w = Inr (w', fx, u) \<Longrightarrow>
   hasAllowlist w' = hasAllowlist w \<and> \<not> allowedRecipients w' agent recipient"
  by (auto simp: removeAllowedRecipient_def wallet_defs sol_defs split: if_splits)

lemma canSpend_ignores_allowlist:
  "canSpend now a amount (w\<lparr>allowedRecipients := allowed, hasAllowlist := enforced\<rparr>) =
   canSpend now a amount w"
  by (simp add: canSpend_def Let_def)

lemma canSpend_OK:
  assumes "within_limits now a amount w"
  shows "canSpend now a amount w = Inr (True, ''OK'')"
  using assms
  by (auto simp: canSpend_def within_limits_def spentToday_at_def sol_defs Let_def)

lemma canSpend_inactive:
  "\<not> active (permissions w a) \<Longrightarrow> canSpend now a amount w = Inr (False, ''Agent not active'')"
  by (simp add: canSpend_def)











subsection \<open>What an agent spends in a reset window\<close>






subsection \<open>A batch that goes through\<close>






subsection \<open>A concrete wallet\<close>

text \<open>
  A callee that accepts every call, and a wallet at address 200, owned by 1, holding 100000,
  whose owner granted agent 88 a permission at time 0: 500 per transaction, 5000 per day,
  no expiry. \<open>ten_spends\<close> are ten spends of 500 within the first day, eight single ones to
  recipient 11 and a batch of two to recipients 11 and 12; \<open>demo_spent\<close> is the wallet after
  them. In \<open>demo_unlimited\<close> the owner granted the largest limits a \<open>uint256\<close> can hold, and
  the agent has spent 1.
\<close>

definition accept :: callee where
  "accept to amount data w = Some []"

definition demo_funded :: wallet where
  "demo_funded = wallet_run accept (wallet_init 200 1)
     [Receive 1 100000, GrantPermission 1 0 88 500 5000 0]"




text \<open>The concrete wallet after the agent has spent \<open>s\<close> in \<open>n\<close> transfers on the first day.\<close>

definition demo_at :: "nat \<Rightarrow> nat \<Rightarrow> wallet" where
  "demo_at s n = (wallet_init 200 1)\<lparr>w_balance := 100000 - s,
      permissions := (\<lambda>a. no_permission)(88 := \<lparr>active = True, maxPerTx = 500, dailyLimit = 5000,
          spentToday = s, lastResetTime = 0, totalSpent = s, txCount = n, expiry = 0\<rparr>),
      agents := [88], isAgent := (\<lambda>a. False)(88 := True)\<rparr>"

lemma MAX_UINT256_ge [simp]: "n \<le> 18446744073709551615 \<Longrightarrow> n \<le> MAX_UINT256"
  by (simp add: MAX_UINT256_def)

lemma MAX_UINT256_pos [simp]: "0 < MAX_UINT256"
  by (simp add: MAX_UINT256_def)

lemma demo_funded_eq:
  "demo_funded = (wallet_init 200 1)\<lparr>w_balance := 100000,
      permissions := (\<lambda>a. no_permission)(88 := \<lparr>active = True, maxPerTx = 500, dailyLimit = 5000,
          spentToday = 0, lastResetTime = 0, totalSpent = 0, txCount = 0, expiry = 0\<rparr>),
      agents := [88], isAgent := (\<lambda>a. False)(88 := True)\<rparr>"
  by (simp add: demo_funded_def wallet_run_def wallet_init_def receive_value_def grantPermission_def
        wallet_defs sol_defs state_after_def Let_def no_permission_def)






lemma demo_at_this [simp]: "w_this (demo_at s n) = 200"
  by (simp add: demo_at_def wallet_init_def)




lemma demo_funded_fields:
  "permissions demo_funded 88 = \<lparr>active = True, maxPerTx = 500, dailyLimit = 5000,
      spentToday = 0, lastResetTime = 0, totalSpent = 0, txCount = 0, expiry = 0\<rparr>"
  "w_balance demo_funded = 100000" "hasAllowlist demo_funded 88 = False" "w_this demo_funded = 200"
  by (simp_all add: demo_funded_eq wallet_init_def)


subsection \<open>The daily limit\<close>





subsection \<open>The recipient allowlist\<close>

text \<open>
  The concrete wallet after its owner has put recipient 11 on agent 88's allowlist
  (\<open>demo_listed\<close>), after the owner has then removed that entry again (\<open>demo_unlisted\<close>),
  and after the owner has instead revoked the agent (\<open>demo_revoked\<close>).
\<close>

definition demo_listed :: wallet where
  "demo_listed = wallet_step accept demo_funded (AddAllowedRecipient 1 88 11)"

definition demo_unlisted :: wallet where
  "demo_unlisted = wallet_step accept demo_listed (RemoveAllowedRecipient 1 88 11)"

definition demo_revoked :: wallet where
  "demo_revoked = wallet_step accept demo_listed (RevokePermission 1 88)"







lemma demo_listed_eq:
  "demo_listed = demo_funded\<lparr>allowedRecipients := (\<lambda>a r. False)(88 := (\<lambda>r. False)(11 := True)),
      hasAllowlist := (\<lambda>a. False)(88 := True)\<rparr>"
  by (simp add: demo_listed_def addAllowedRecipient_def wallet_defs sol_defs state_after_def
        demo_funded_eq wallet_init_def)


lemma demo_unlisted_eq:
  "demo_unlisted = demo_listed\<lparr>allowedRecipients := (\<lambda>a r. False)(88 := (\<lambda>r. False))\<rparr>"
  by (simp add: demo_unlisted_def removeAllowedRecipient_def wallet_defs sol_defs state_after_def
        demo_listed_eq demo_funded_eq wallet_init_def fun_upd_idem)


lemma demo_funded_limits: "within_limits 10 88 500 demo_funded" "counters_fit 88 500 demo_funded"
  by (simp_all add: within_limits_def counters_fit_def demo_funded_fields spentToday_at_def
        ONE_DAY_def)

lemma demo_listed_fields:
  "permissions demo_listed = permissions demo_funded" "w_balance demo_listed = w_balance demo_funded"
  "hasAllowlist demo_listed 88" "allowedRecipients demo_listed 88 11"
  "\<not> allowedRecipients demo_listed 88 12"
  "permissions demo_unlisted = permissions demo_funded"
  "w_balance demo_unlisted = w_balance demo_funded"
  "\<not> allowedRecipients demo_unlisted 88 11"
  by (simp_all add: demo_listed_eq demo_unlisted_eq)

lemma demo_listed_limits: "within_limits 10 88 500 demo_listed" "within_limits 10 88 500 demo_unlisted"
  using demo_funded_limits by (simp_all add: within_limits_def demo_listed_fields)




subsection \<open>\<open>canSpend\<close> and the allowlist\<close>

text \<open>
  Claim C10, as amended. \<open>canSpend\<close> never reads the allowlist: its answer is the same
  whatever \<open>allowedRecipients\<close> and \<open>hasAllowlist\<close> hold. So for an allowlist-enforced
  agent and a recipient that is not allowed, every amount that passes the limit and balance
  checks gets \<open>(true, "OK")\<close> from \<open>canSpend\<close> while \<open>agentExecute\<close> rejects it with
  "Recipient not allowed"; the amount 0 is such an amount whenever the permission is
  active and unexpired and its \<open>spentToday\<close> is within \<open>dailyLimit\<close>.
\<close>

theorem canSpend_skips_allowlist:
  "canSpend now a amount (w\<lparr>allowedRecipients := allowed, hasAllowlist := enforced\<rparr>) =
     canSpend now a amount w \<and>
   (hasAllowlist w a \<and> \<not> allowedRecipients w a to \<and> within_limits now a amount w \<longrightarrow>
      canSpend now a amount w = Inr (True, ''OK'') \<and>
      agentExecute ext a now to amount data w = Inl (Revert ''Recipient not allowed'')) \<and>
   (hasAllowlist w a \<and> \<not> allowedRecipients w a to \<and>
    active (permissions w a) \<and>
    (expiry (permissions w a) = 0 \<or> now < expiry (permissions w a)) \<and>
    lastResetTime (permissions w a) + ONE_DAY \<le> MAX_UINT256 \<and>
    spentToday (permissions w a) \<le> dailyLimit (permissions w a) \<and>
    spentToday (permissions w a) \<le> MAX_UINT256 \<longrightarrow>
      canSpend now a 0 w = Inr (True, ''OK'') \<and>
      agentExecute ext a now to 0 data w = Inl (Revert ''Recipient not allowed''))"
proof (intro conjI impI)
  show "canSpend now a amount (w\<lparr>allowedRecipients := allowed, hasAllowlist := enforced\<rparr>) =
     canSpend now a amount w" by (rule canSpend_ignores_allowlist)
next
  assume "hasAllowlist w a \<and> \<not> allowedRecipients w a to \<and> within_limits now a amount w"
  then show "canSpend now a amount w = Inr (True, ''OK'')" by (simp add: canSpend_OK)
next
  assume "hasAllowlist w a \<and> \<not> allowedRecipients w a to \<and> within_limits now a amount w"
  then show "agentExecute ext a now to amount data w = Inl (Revert ''Recipient not allowed'')"
    by (simp add: agentExecute_not_allowed)
next
  assume h: "hasAllowlist w a \<and> \<not> allowedRecipients w a to \<and>
    active (permissions w a) \<and>
    (expiry (permissions w a) = 0 \<or> now < expiry (permissions w a)) \<and>
    lastResetTime (permissions w a) + ONE_DAY \<le> MAX_UINT256 \<and>
    spentToday (permissions w a) \<le> dailyLimit (permissions w a) \<and>
    spentToday (permissions w a) \<le> MAX_UINT256"
  then have "within_limits now a 0 w" by (simp add: within_limits_def spentToday_at_def)
  then show "canSpend now a 0 w = Inr (True, ''OK'')" by (rule canSpend_OK)
next
  assume h: "hasAllowlist w a \<and> \<not> allowedRecipients w a to \<and>
    active (permissions w a) \<and>
    (expiry (permissions w a) = 0 \<or> now < expiry (permissions w a)) \<and>
    lastResetTime (permissions w a) + ONE_DAY \<le> MAX_UINT256 \<and>
    spentToday (permissions w a) \<le> dailyLimit (permissions w a) \<and>
    spentToday (permissions w a) \<le> MAX_UINT256"
  then have "within_limits now a 0 w" by (simp add: within_limits_def spentToday_at_def)
  with h show "agentExecute ext a now to 0 data w = Inl (Revert ''Recipient not allowed'')"
    by (simp add: agentExecute_not_allowed)
qed

lemma demo_revoked_fields:
  "hasAllowlist demo_revoked 88" "\<not> allowedRecipients demo_revoked 88 12"
  "\<not> active (permissions demo_revoked 88)"
  by (simp_all add: demo_revoked_def revokePermission_def wallet_defs sol_defs state_after_def
        demo_listed_eq demo_funded_eq wallet_init_def)

text \<open>
  The claim as stated fails for an allowlist-enforced agent whose permission was revoked:
  \<open>canSpend\<close> answers \<open>(false, "Agent not active")\<close> for every amount at every time.
\<close>

theorem canSpend_skips_allowlist_counterexample:
  "hasAllowlist demo_revoked 88 \<and> \<not> allowedRecipients demo_revoked 88 12 \<and>
   (\<forall>now amount. canSpend now 88 amount demo_revoked = Inr (False, ''Agent not active''))"
  by (simp add: demo_revoked_fields canSpend_inactive)

theorem canSpend_skips_allowlist_witness:
  "hasAllowlist demo_listed 88 \<and> \<not> allowedRecipients demo_listed 88 12 \<and>
   within_limits 10 88 500 demo_listed \<and>
   canSpend 10 88 500 demo_listed = Inr (True, ''OK'') \<and>
   agentExecute accept 88 10 12 500 [] demo_listed = Inl (Revert ''Recipient not allowed'') \<and>
   canSpend 10 88 0 demo_listed = Inr (True, ''OK'') \<and>
   agentExecute accept 88 10 12 0 [] demo_listed = Inl (Revert ''Recipient not allowed'')"
proof -
  have p: "active (permissions demo_listed 88)" "expiry (permissions demo_listed 88) = 0"
    "lastResetTime (permissions demo_listed 88) + ONE_DAY \<le> MAX_UINT256"
    "spentToday (permissions demo_listed 88) \<le> dailyLimit (permissions demo_listed 88)"
    "spentToday (permissions demo_listed 88) \<le> MAX_UINT256"
    by (simp_all add: demo_listed_fields demo_funded_fields ONE_DAY_def)
  from canSpend_skips_allowlist[where now = 10 and a = 88 and amount = 500 and w = demo_listed
      and to = 12 and ext = accept and data = "[]"]
    demo_listed_fields(3,5) demo_listed_limits(1) p
  show ?thesis by simp
qed

section \<open>SettlementEngine (contracts/SettlementEngine.sol)\<close>

text \<open>
  The engine and the gateway are two contracts: the engine's functions take and return the
  storage of both. The engine calls the gateway as \<open>msg.sender = address(this)\<close>. Batches
  and multi-leg transactions are modelled; recurring schedules are not.
\<close>

datatype BatchStatus = BatchPending | Processing | BatchCompleted | BatchFailed

record SettlementBatch =
  b_id :: bytes32
  b_paymentIds :: "bytes32 list"
  b_createdAt :: nat
  b_executedAt :: nat
  b_status :: BatchStatus

datatype MultiLegStatus = LegsPending | Executing | LegsCompleted | PartialFail | Reverted

record Leg =
  l_from :: address
  l_to :: address
  l_token :: address
  l_amount :: nat
  l_executed :: bool

record MultiLegTx =
  m_id :: bytes32
  m_legs :: "Leg list"
  m_createdAt :: nat
  m_status :: MultiLegStatus

record engine =
  s_this :: address
  batches :: "bytes32 \<Rightarrow> SettlementBatch"
  batchPaymentStatus :: "bytes32 \<Rightarrow> nat \<Rightarrow> bool"
  multiLegTxs :: "bytes32 \<Rightarrow> MultiLegTx"
  s_nonce :: nat

definition no_batch :: SettlementBatch where
  "no_batch = \<lparr>b_id = Zero32, b_paymentIds = [], b_createdAt = 0, b_executedAt = 0,
     b_status = BatchPending\<rparr>"

definition no_tx :: MultiLegTx where
  "no_tx = \<lparr>m_id = Zero32, m_legs = [], m_createdAt = 0, m_status = LegsPending\<rparr>"

definition engine_init :: "address \<Rightarrow> engine" where
  "engine_init this = \<lparr>s_this = this, batches = (\<lambda>i. no_batch),
     batchPaymentStatus = (\<lambda>i k. False), multiLegTxs = (\<lambda>i. no_tx), s_nonce = 0\<rparr>"

definition createBatch :: "address \<Rightarrow> nat \<Rightarrow> bytes32 list \<Rightarrow> engine \<times> gateway
    \<Rightarrow> error + ((engine \<times> gateway) \<times> effect list \<times> bytes32)" where
  "createBatch sender now paymentIds s =
     (case s of (e, g) \<Rightarrow>
      require (length paymentIds > 0) ''Empty batch''
     (require (length paymentIds \<le> 100) ''Batch too large''
     (bindE (checked_add (s_nonce e) 1) (\<lambda>nonce'.
        let batchId = Keccak [sender, length paymentIds, s_nonce e, now] in
        Inr ((e\<lparr>s_nonce := nonce',
                 batches := (batches e)(batchId :=
                   \<lparr>b_id = batchId, b_paymentIds = paymentIds, b_createdAt = now,
                    b_executedAt = 0, b_status = BatchPending\<rparr>)\<rparr>, g),
             [Emit (BatchCreated batchId (length paymentIds))], batchId)))))"

text \<open>
  The loop of \<open>executeBatch\<close>: \<open>try gateway.executePayment(paymentIds[i], "")\<close> either
  returns, and its effects stay, or reverts, and the gateway is as before the attempt; the
  loop goes on to \<open>i + 1\<close> either way. The arguments are the index, the flags
  \<open>batchPaymentStatus[batchId]\<close>, the gateway, the log and the two counters.
\<close>

fun executeBatch_loop :: "gateway adapter \<Rightarrow> address \<Rightarrow> nat \<Rightarrow> bytes32 list \<Rightarrow> nat
    \<Rightarrow> (nat \<Rightarrow> bool) \<Rightarrow> gateway \<Rightarrow> effect list \<Rightarrow> nat \<Rightarrow> nat
    \<Rightarrow> (nat \<Rightarrow> bool) \<times> gateway \<times> effect list \<times> nat \<times> nat" where
  "executeBatch_loop ok this now [] i flags g fx successCount failCount =
     (flags, g, fx, successCount, failCount)"
| "executeBatch_loop ok this now (paymentId # rest) i flags g fx successCount failCount =
     (case executePayment ok this now paymentId [] g of
        Inr (g', fx', u) \<Rightarrow>
          executeBatch_loop ok this now rest (i + 1) (flags(i := True)) g' (fx @ fx')
            (successCount + 1) failCount
      | Inl e \<Rightarrow>
          executeBatch_loop ok this now rest (i + 1) (flags(i := False)) g fx
            successCount (failCount + 1))"

definition executeBatch :: "gateway adapter \<Rightarrow> address \<Rightarrow> nat \<Rightarrow> bytes32 \<Rightarrow> engine \<times> gateway
    \<Rightarrow> error + ((engine \<times> gateway) \<times> effect list \<times> unit)" where
  "executeBatch ok sender now batchId s =
     (case s of (e, g) \<Rightarrow>
      let batch = batches e batchId in
      require (b_status batch = BatchPending) ''Invalid batch status''
     (let e1 = e\<lparr>batches := (batches e)(batchId := batch\<lparr>b_status := Processing\<rparr>)\<rparr>
      in case executeBatch_loop ok (s_this e) now (b_paymentIds batch) 0
                (batchPaymentStatus e1 batchId) g [] 0 0 of
           (flags, g', fx, successCount, failCount) \<Rightarrow>
             Inr ((e1\<lparr>batchPaymentStatus := (batchPaymentStatus e1)(batchId := flags),
                       batches := (batches e1)(batchId := (batches e1 batchId)
                         \<lparr>b_executedAt := now,
                          b_status := (if failCount = 0 then BatchCompleted else BatchFailed)\<rparr>)\<rparr>,
                   g'),
                  fx @ [Emit (BatchExecuted batchId successCount failCount)], ())))"

fun make_legs :: "address list \<Rightarrow> address list \<Rightarrow> address list \<Rightarrow> nat list \<Rightarrow> Leg list" where
  "make_legs (f # froms) (t # tos) (k # tokens) (a # amounts) =
     \<lparr>l_from = f, l_to = t, l_token = k, l_amount = a, l_executed = False\<rparr>
       # make_legs froms tos tokens amounts"
| "make_legs froms tos tokens amounts = []"

definition createMultiLegTx :: "address \<Rightarrow> nat \<Rightarrow> address list \<Rightarrow> address list \<Rightarrow> address list
    \<Rightarrow> nat list \<Rightarrow> engine \<times> gateway \<Rightarrow> error + ((engine \<times> gateway) \<times> effect list \<times> bytes32)" where
  "createMultiLegTx sender now froms tos tokens amounts s =
     (case s of (e, g) \<Rightarrow>
      require (length froms = length tos \<and> length tos = length tokens
               \<and> length tokens = length amounts) ''Array mismatch''
     (require (length froms > 0 \<and> length froms \<le> 10) ''Invalid leg count''
     (bindE (checked_add (s_nonce e) 1) (\<lambda>nonce'.
        let txId = Keccak [sender, length froms, s_nonce e, now];
            mlTx = multiLegTxs e txId
        in Inr ((e\<lparr>s_nonce := nonce',
                    multiLegTxs := (multiLegTxs e)(txId :=
                      mlTx\<lparr>m_id := txId, m_createdAt := now, m_status := LegsPending,
                           m_legs := m_legs mlTx @ make_legs froms tos tokens amounts\<rparr>)\<rparr>, g),
                [Emit (MultiLegTxCreated txId (length froms))], txId)))))"

text \<open>
  One iteration of the loop of \<open>executeMultiLegTx\<close>: the engine creates a payment for the
  leg, attaching the leg's amount when the token is native, with the digest of the leg's
  proof as its condition, and executes it with that proof. Neither call is guarded by
  \<open>try\<close>: a revert of either is a revert of the whole transaction.
\<close>

definition execute_leg :: "gateway adapter \<Rightarrow> address \<Rightarrow> nat \<Rightarrow> Leg \<Rightarrow> bytes \<Rightarrow> gateway
    \<Rightarrow> error + (gateway \<times> effect list)" where
  "execute_leg ok this now leg prf g =
     (let val = (if l_token leg = 0 then l_amount leg else 0) in
      bindE (checked_add now 3600) (\<lambda>deadline.
      if val > 0 \<and> \<not> ok (Transfer 0 this (g_this g) val) g then Inl ExternalFailure
      else
        bindE (createPayment ok this val now (l_to leg) (l_token leg) (l_amount leg) deadline
                 (Keccak prf) g) (\<lambda>(g1, fx1, paymentId).
        bindE (executePayment ok this now paymentId prf g1) (\<lambda>(g2, fx2, u).
          Inr (g2, fx1 @ fx2)))))"

fun legs_loop :: "gateway adapter \<Rightarrow> address \<Rightarrow> nat \<Rightarrow> (Leg \<times> bytes) list \<Rightarrow> gateway \<Rightarrow> effect list
    \<Rightarrow> error + (Leg list \<times> gateway \<times> effect list)" where
  "legs_loop ok this now [] g fx = Inr ([], g, fx)"
| "legs_loop ok this now ((leg, prf) # rest) g fx =
     bindE (execute_leg ok this now leg prf g) (\<lambda>(g', fx').
     bindE (legs_loop ok this now rest g' (fx @ fx')) (\<lambda>(legs', g'', fx'').
       Inr (leg\<lparr>l_executed := True\<rparr> # legs', g'', fx'')))"

definition executeMultiLegTx :: "gateway adapter \<Rightarrow> address \<Rightarrow> nat \<Rightarrow> bytes32 \<Rightarrow> bytes list
    \<Rightarrow> engine \<times> gateway \<Rightarrow> error + ((engine \<times> gateway) \<times> effect list \<times> unit)" where
  "executeMultiLegTx ok sender now txId proofs s =
     (case s of (e, g) \<Rightarrow>
      let mlTx = multiLegTxs e txId in
      require (m_status mlTx = LegsPending) ''Invalid status''
     (require (length proofs = length (m_legs mlTx)) ''Proof count mismatch''
     (let e1 = e\<lparr>multiLegTxs := (multiLegTxs e)(txId := mlTx\<lparr>m_status := Executing\<rparr>)\<rparr> in
      bindE (legs_loop ok (s_this e) now (zip (m_legs mlTx) proofs) g []) (\<lambda>(legs', g', fx).
        Inr ((e1\<lparr>multiLegTxs := (multiLegTxs e1)(txId :=
                  (multiLegTxs e1 txId)\<lparr>m_legs := legs', m_status := LegsCompleted\<rparr>)\<rparr>, g'),
             fx @ [Emit (MultiLegTxCompleted txId)], ())))))"

subsection \<open>Batches are best effort\<close>

text \<open>
  The claim's words for a batch: each payment id is attempted in order, in the gateway the
  earlier attempts left; \<open>attempt\<close> is the gateway after one attempt and \<open>outcomes\<close> the list
  of results, one per id.
\<close>

definition attempt :: "gateway adapter \<Rightarrow> address \<Rightarrow> nat \<Rightarrow> gateway \<Rightarrow> bytes32 \<Rightarrow> gateway" where
  "attempt ok this now g paymentId = state_after g (executePayment ok this now paymentId [] g)"

fun outcomes :: "gateway adapter \<Rightarrow> address \<Rightarrow> nat \<Rightarrow> gateway \<Rightarrow> bytes32 list \<Rightarrow> bool list" where
  "outcomes ok this now g [] = []"
| "outcomes ok this now g (paymentId # rest) =
     succeeds (executePayment ok this now paymentId [] g)
       # outcomes ok this now (attempt ok this now g paymentId) rest"

lemma length_outcomes: "length (outcomes ok this now g ids) = length ids"
  by (induction ids arbitrary: g) simp_all

lemma executeBatch_loop_Cons:
  "executeBatch_loop ok this now (p # ids) i flags g fx sc fc =
     executeBatch_loop ok this now ids (Suc i)
       (flags(i := succeeds (executePayment ok this now p [] g)))
       (attempt ok this now g p)
       (fx @ log_of (executePayment ok this now p [] g))
       (sc + (if succeeds (executePayment ok this now p [] g) then 1 else 0))
       (fc + (if succeeds (executePayment ok this now p [] g) then 0 else 1))"
  by (cases "executePayment ok this now p [] g")
     (auto simp: attempt_def state_after_def succeeds_def log_of_def)

lemma executeBatch_loop_flags:
  "fst (executeBatch_loop ok this now ids i flags g fx sc fc) k =
     (if i \<le> k \<and> k < i + length ids then outcomes ok this now g ids ! (k - i) else flags k)"
proof (induction ids arbitrary: i flags g fx sc fc)
  case Nil
  then show ?case by auto
next
  case (Cons p ids)
  show ?case
    unfolding executeBatch_loop_Cons Cons.IH
    by (auto simp: nth_Cons')
qed

lemma executeBatch_loop_gateway:
  "fst (snd (executeBatch_loop ok this now ids i flags g fx sc fc)) = foldl (attempt ok this now) g ids"
proof (induction ids arbitrary: i flags g fx sc fc)
  case Nil
  then show ?case by simp
next
  case (Cons p ids)
  show ?case unfolding executeBatch_loop_Cons Cons.IH by simp
qed

lemma executeBatch_loop_counts:
  "snd (snd (snd (executeBatch_loop ok this now ids i flags g fx sc fc))) =
     (sc + length (filter (\<lambda>b. b) (outcomes ok this now g ids)),
      fc + length (filter (\<lambda>b. \<not> b) (outcomes ok this now g ids)))"
proof (induction ids arbitrary: i flags g fx sc fc)
  case Nil
  then show ?case by simp
next
  case (Cons p ids)
  show ?case unfolding executeBatch_loop_Cons Cons.IH by simp
qed


text \<open>
  A concrete batch: three native payments of 1000, 2000 and 3000 created by payer 10, the
  second cancelled by the payer, batched by caller 20 in an engine at address 300 that the
  gateway's owner has authorized.
\<close>

definition pay1 :: bytes32 where "pay1 = Keccak [10, 11, 1000, 0, 5]"
definition pay2 :: bytes32 where "pay2 = Keccak [10, 12, 2000, 1, 5]"
definition pay3 :: bytes32 where "pay3 = Keccak [10, 13, 3000, 2, 5]"

definition batch_gateway :: gateway where
  "batch_gateway = gateway_run all_ok demo_gateway
     [SetAuthorizedAgent 1 300 True,
      CreatePayment 10 1000 5 11 0 1000 50 Zero32,
      CreatePayment 10 2000 5 12 0 2000 50 Zero32,
      CreatePayment 10 3000 5 13 0 3000 50 Zero32,
      CancelPayment 10 6 pay2]"

definition batch1 :: bytes32 where "batch1 = Keccak [20, 3, 0, 7]"

definition batch_engine :: engine where
  "batch_engine = fst (state_after (engine_init 300, batch_gateway)
     (createBatch 20 7 [pay1, pay2, pay3] (engine_init 300, batch_gateway)))"

text \<open>
  Claim C6. For a batch in Pending status \<open>executeBatch\<close> returns, whatever the payments
  do. Every payment id is attempted, in order, each in the gateway that the earlier attempts
  left; the flag at index \<open>i\<close> is the result of attempt \<open>i\<close> alone; the success and failure
  counts add up to the number of ids; the batch ends Completed when no attempt failed and
  Failed otherwise; and the last event of the call carries the two counts.
\<close>

theorem executeBatch_best_effort:
  assumes "b_status (batches e batchId) = BatchPending"
    and "results = outcomes ok (s_this e) now g (b_paymentIds (batches e batchId))"
    and "successCount = length (filter (\<lambda>b. b) results)"
    and "failCount = length (filter (\<lambda>b. \<not> b) results)"
  shows "\<exists>e' fx. executeBatch ok sender now batchId (e, g) =
      Inr ((e', foldl (attempt ok (s_this e) now) g (b_paymentIds (batches e batchId))),
           fx @ [Emit (BatchExecuted batchId successCount failCount)], ()) \<and>
    length results = length (b_paymentIds (batches e batchId)) \<and>
    (\<forall>i < length (b_paymentIds (batches e batchId)).
        batchPaymentStatus e' batchId i = results ! i) \<and>
    successCount + failCount = length (b_paymentIds (batches e batchId)) \<and>
    b_status (batches e' batchId) = (if failCount = 0 then BatchCompleted else BatchFailed) \<and>
    b_executedAt (batches e' batchId) = now"
proof -
  let ?ids = "b_paymentIds (batches e batchId)"
  let ?e1 = "e\<lparr>batches := (batches e)(batchId := (batches e batchId)\<lparr>b_status := Processing\<rparr>)\<rparr>"
  let ?loop = "executeBatch_loop ok (s_this e) now ?ids 0 (batchPaymentStatus ?e1 batchId) g [] 0 0"
  obtain flags g' fx sc fc where loop: "?loop = (flags, g', fx, sc, fc)" by (cases ?loop)
  from executeBatch_loop_flags[of ok "s_this e" now ?ids 0 "batchPaymentStatus ?e1 batchId" g "[]" 0 0]
    loop assms(2)
  have fl: "\<And>k. flags k = (if k < length ?ids then results ! k else batchPaymentStatus ?e1 batchId k)"
    by simp
  from executeBatch_loop_gateway[of ok "s_this e" now ?ids 0 "batchPaymentStatus ?e1 batchId" g "[]" 0 0]
    loop have g': "g' = foldl (attempt ok (s_this e) now) g ?ids" by simp
  from executeBatch_loop_counts[of ok "s_this e" now ?ids 0 "batchPaymentStatus ?e1 batchId" g "[]" 0 0]
    loop assms(2-4) have cnt: "sc = successCount" "fc = failCount" by simp_all
  have len: "length results = length ?ids" by (simp add: assms(2) length_outcomes)
  have "length (filter (\<lambda>b. b) results) + length (filter (\<lambda>b. \<not> b) results) = length results"
    by (rule sum_length_filter_compl)
  with len assms(3,4) have total: "successCount + failCount = length ?ids" by simp
  let ?e' = "?e1\<lparr>batchPaymentStatus := (batchPaymentStatus ?e1)(batchId := flags),
                   batches := (batches ?e1)(batchId := (batches ?e1 batchId)
                     \<lparr>b_executedAt := now,
                      b_status := (if fc = 0 then BatchCompleted else BatchFailed)\<rparr>)\<rparr>"
  have ex: "executeBatch ok sender now batchId (e, g) =
      Inr ((?e', g'), fx @ [Emit (BatchExecuted batchId sc fc)], ())"
    using assms(1) loop by (simp add: executeBatch_def require_def Let_def)
  show ?thesis
    apply (rule exI[of _ ?e'])
    apply (rule exI[of _ fx])
    using ex g' cnt len total fl by simp
qed


lemma batch_gateway_fields:
  "payments batch_gateway pay1 = \<lparr>p_id = pay1, p_from = 10, p_to = 11, p_token = 0,
      p_amount = 1000, p_deadline = 50, p_conditionHash = Zero32, p_status = Pending\<rparr>"
  "payments batch_gateway pay2 = \<lparr>p_id = pay2, p_from = 10, p_to = 12, p_token = 0,
      p_amount = 2000, p_deadline = 50, p_conditionHash = Zero32, p_status = Cancelled\<rparr>"
  "payments batch_gateway pay3 = \<lparr>p_id = pay3, p_from = 10, p_to = 13, p_token = 0,
      p_amount = 3000, p_deadline = 50, p_conditionHash = Zero32, p_status = Pending\<rparr>"
  "authorizedAgents batch_gateway 300" "protocolFee batch_gateway = 30"
  by (simp_all add: batch_gateway_def gateway_run_def demo_gateway_def gateway_init_def
        setAuthorizedAgent_def createPayment_def cancelPayment_def sol_defs state_after_def
        Let_def msg_value_def all_ok_def pay1_def pay2_def pay3_def MAX_UINT256_def)

lemma batch_engine_fields:
  "batches batch_engine batch1 = \<lparr>b_id = batch1, b_paymentIds = [pay1, pay2, pay3],
      b_createdAt = 7, b_executedAt = 0, b_status = BatchPending\<rparr>"
  "s_this batch_engine = 300"
  by (simp_all add: batch_engine_def createBatch_def engine_init_def sol_defs state_after_def
        Let_def batch1_def MAX_UINT256_def)

lemma pay_distinct: "pay1 \<noteq> pay2" "pay1 \<noteq> pay3" "pay2 \<noteq> pay3" "pay2 \<noteq> pay1" "pay3 \<noteq> pay1"
  "pay3 \<noteq> pay2"
  by (simp_all add: pay1_def pay2_def pay3_def)

lemma batch_outcomes:
  "outcomes all_ok 300 8 batch_gateway [pay1, pay2, pay3] = [True, False, True]"
  by (simp add: attempt_def executePayment_def sol_defs Let_def succeeds_def state_after_def
        batch_gateway_fields pay_distinct all_ok_def MAX_UINT256_def)

text \<open>
  The batch of three payments whose second is already Cancelled: two successes, one failure,
  batch status Failed, and the third payment was attempted and executed.
\<close>

theorem executeBatch_best_effort_witness:
  "b_status (batches batch_engine batch1) = BatchPending \<and>
   outcomes all_ok 300 8 batch_gateway [pay1, pay2, pay3] = [True, False, True] \<and>
   (\<exists>e' g' fx. executeBatch all_ok 20 8 batch1 (batch_engine, batch_gateway) =
        Inr ((e', g'), fx @ [Emit (BatchExecuted batch1 2 1)], ()) \<and>
      batchPaymentStatus e' batch1 0 \<and> \<not> batchPaymentStatus e' batch1 1 \<and>
      batchPaymentStatus e' batch1 2 \<and>
      b_status (batches e' batch1) = BatchFailed)"
proof -
  have p: "b_status (batches batch_engine batch1) = BatchPending"
    by (simp add: batch_engine_fields)
  have r: "[True, False, True] = outcomes all_ok (s_this batch_engine) 8 batch_gateway
      (b_paymentIds (batches batch_engine batch1))"
    by (simp only: batch_engine_fields batch_outcomes SettlementBatch.simps)
  have s: "(2::nat) = length (filter (\<lambda>b. b) [True, False, True])" by simp
  have f: "(1::nat) = length (filter (\<lambda>b. \<not> b) [True, False, True])" by simp
  from executeBatch_best_effort[OF p r s f, of 20]
  obtain e' fx where
    ex: "executeBatch all_ok 20 8 batch1 (batch_engine, batch_gateway) =
      Inr ((e', foldl (attempt all_ok (s_this batch_engine) 8) batch_gateway
                  (b_paymentIds (batches batch_engine batch1))),
           fx @ [Emit (BatchExecuted batch1 2 1)], ())"
    and fl: "\<forall>i < length (b_paymentIds (batches batch_engine batch1)).
        batchPaymentStatus e' batch1 i = [True, False, True] ! i"
    and st: "b_status (batches e' batch1) = (if (1::nat) = 0 then BatchCompleted else BatchFailed)"
    by blast
  from fl have "batchPaymentStatus e' batch1 0" "\<not> batchPaymentStatus e' batch1 1"
    "batchPaymentStatus e' batch1 2"
    by (simp_all add: batch_engine_fields)
  with ex st p batch_outcomes show ?thesis by auto
qed

subsection \<open>Multi-leg transactions\<close>

lemma legs_loop_stops:
  assumes "legs_loop ok this now before g fx = Inr (marked, g1, fx1)"
    and "execute_leg ok this now leg pf g1 = Inl err"
  shows "legs_loop ok this now (before @ (leg, pf) # after) g fx = Inl err"
  using assms
proof (induction before arbitrary: g fx marked)
  case Nil
  then show ?case by (simp add: bindE_def)
next
  case (Cons x before)
  obtain l p where x: "x = (l, p)" by (cases x)
  from Cons.prems(1) x obtain g' fx' marked' where
    first: "execute_leg ok this now l p g = Inr (g', fx')"
    and rest: "legs_loop ok this now before g' (fx @ fx') = Inr (marked', g1, fx1)"
    by (auto simp: bindE_def split: sum.splits prod.splits)
  from Cons.IH[OF rest Cons.prems(2)] first x show ?case by (simp add: bindE_def)
qed

lemma legs_loop_Inr:
  "legs_loop ok this now xs g fx = Inr (marked, g', fx') \<Longrightarrow>
   marked = map (\<lambda>x. (fst x)\<lparr>l_executed := True\<rparr>) xs"
proof (induction xs arbitrary: g fx marked)
  case Nil
  then show ?case by simp
next
  case (Cons x xs)
  obtain l p where x: "x = (l, p)" by (cases x)
  from Cons.prems x obtain g1 fx1 marked1 where
    rest: "legs_loop ok this now xs g1 (fx @ fx1) = Inr (marked1, g', fx')"
    and m: "marked = l\<lparr>l_executed := True\<rparr> # marked1"
    by (auto simp: bindE_def split: sum.splits prod.splits)
  from Cons.IH[OF rest] m x show ?case by simp
qed

text \<open>
  Each leg's payment is created with the hash of the proof that is then used to execute it, so
  a leg never fails on its condition.
\<close>

lemma execute_leg_condition_met:
  "execute_leg ok this now leg pf g \<noteq> Inl (Revert ''Condition not met'')"
proof
  assume f: "execute_leg ok this now leg pf g = Inl (Revert ''Condition not met'')"
  have c: "createPayment ok' s v t to tk a d c g0 \<noteq> Inl (Revert ''Condition not met'')"
    for ok' s v t to tk a d c g0
    by (auto simp: createPayment_def sol_defs Let_def split: if_splits)
  from f c obtain deadline g1 fx1 i where
    cr: "createPayment ok this (if l_token leg = 0 then l_amount leg else 0) now (l_to leg)
           (l_token leg) (l_amount leg) deadline (Keccak pf) g = Inr (g1, fx1, i)"
    and ex: "executePayment ok this now i pf g1 = Inl (Revert ''Condition not met'')"
    by (auto simp: execute_leg_def bindE_def checked_add_def Let_def
          split: if_splits sum.splits prod.splits)
  from createPayment_Inr[OF cr] have "p_conditionHash (payments g1 i) = Keccak pf" by simp
  with ex show False
    by (auto simp: executePayment_def sol_defs Let_def split: if_splits)
qed

lemma map_fst_zip_same:
  "length xs = length ys \<Longrightarrow> map (\<lambda>x. f (fst x)) (zip xs ys) = map f xs"
  by (induction xs ys rule: list_induct2) simp_all

text \<open>
  Claim C2, as amended. For a transaction in Pending status with one proof per leg: if the
  legs before leg \<open>i\<close> execute and leg \<open>i\<close> fails, the whole call fails with that leg's
  error, and it does so whatever legs follow, so none of them is attempted. A call that fails
  leaves the engine and the gateway as they were before the call: the legs that had executed
  are undone with everything else, and the status is still Pending, not Completed. The call
  returns exactly when every leg executes, and then the status is Completed and every leg is
  marked executed.
\<close>

theorem executeMultiLegTx_all_or_nothing:
  assumes "m_status (multiLegTxs e txId) = LegsPending"
    and "length proofs = length (m_legs (multiLegTxs e txId))"
  shows
   "(m_legs (multiLegTxs e txId) = before @ leg # after \<and>
     proofs = proofs_before @ pf # proofs_after \<and> length proofs_before = length before \<and>
     legs_loop ok (s_this e) now (zip before proofs_before) g [] = Inr (marked, g1, fx1) \<and>
     execute_leg ok (s_this e) now leg pf g1 = Inl err \<longrightarrow>
       executeMultiLegTx ok sender now txId proofs (e, g) = Inl err \<and>
       (\<forall>after' proofs_after'. length after' = length proofs_after' \<longrightarrow>
          legs_loop ok (s_this e) now (zip (before @ leg # after') (proofs_before @ pf # proofs_after')) g []
            = Inl err)) \<and>
    (\<not> succeeds (executeMultiLegTx ok sender now txId proofs (e, g)) \<longrightarrow>
       state_after (e, g) (executeMultiLegTx ok sender now txId proofs (e, g)) = (e, g) \<and>
       m_status (multiLegTxs (fst (state_after (e, g)
          (executeMultiLegTx ok sender now txId proofs (e, g)))) txId) \<noteq> LegsCompleted) \<and>
    (succeeds (legs_loop ok (s_this e) now (zip (m_legs (multiLegTxs e txId)) proofs) g [])
       = succeeds (executeMultiLegTx ok sender now txId proofs (e, g))) \<and>
    (\<forall>e' g' fx u. executeMultiLegTx ok sender now txId proofs (e, g) = Inr ((e', g'), fx, u) \<longrightarrow>
       m_status (multiLegTxs e' txId) = LegsCompleted \<and>
       m_legs (multiLegTxs e' txId) =
         map (\<lambda>l. l\<lparr>l_executed := True\<rparr>) (m_legs (multiLegTxs e txId)))"
proof (intro conjI impI allI)
  assume h: "m_legs (multiLegTxs e txId) = before @ leg # after \<and>
     proofs = proofs_before @ pf # proofs_after \<and> length proofs_before = length before \<and>
     legs_loop ok (s_this e) now (zip before proofs_before) g [] = Inr (marked, g1, fx1) \<and>
     execute_leg ok (s_this e) now leg pf g1 = Inl err"
  then have z: "zip (m_legs (multiLegTxs e txId)) proofs =
      zip before proofs_before @ (leg, pf) # zip after proofs_after" by simp
  from h have a: "legs_loop ok (s_this e) now (zip before proofs_before) g [] = Inr (marked, g1, fx1)"
    and b: "execute_leg ok (s_this e) now leg pf g1 = Inl err" by simp_all
  have "legs_loop ok (s_this e) now (zip (m_legs (multiLegTxs e txId)) proofs) g [] = Inl err"
    unfolding z by (rule legs_loop_stops[OF a b])
  with assms show "executeMultiLegTx ok sender now txId proofs (e, g) = Inl err"
    by (simp add: executeMultiLegTx_def require_def bindE_def Let_def)
next
  fix after' :: "Leg list" and proofs_after' :: "bytes list"
  assume h: "m_legs (multiLegTxs e txId) = before @ leg # after \<and>
     proofs = proofs_before @ pf # proofs_after \<and> length proofs_before = length before \<and>
     legs_loop ok (s_this e) now (zip before proofs_before) g [] = Inr (marked, g1, fx1) \<and>
     execute_leg ok (s_this e) now leg pf g1 = Inl err"
  then have z: "zip (before @ leg # after') (proofs_before @ pf # proofs_after') =
      zip before proofs_before @ (leg, pf) # zip after' proofs_after'" by simp
  from h have a: "legs_loop ok (s_this e) now (zip before proofs_before) g [] = Inr (marked, g1, fx1)"
    and b: "execute_leg ok (s_this e) now leg pf g1 = Inl err" by simp_all
  show "legs_loop ok (s_this e) now
      (zip (before @ leg # after') (proofs_before @ pf # proofs_after')) g [] = Inl err"
    unfolding z by (rule legs_loop_stops[OF a b])
next
  assume "\<not> succeeds (executeMultiLegTx ok sender now txId proofs (e, g))"
  then show "state_after (e, g) (executeMultiLegTx ok sender now txId proofs (e, g)) = (e, g)"
    by (auto simp: succeeds_def state_after_def split: sum.splits)
next
  assume "\<not> succeeds (executeMultiLegTx ok sender now txId proofs (e, g))"
  then have "state_after (e, g) (executeMultiLegTx ok sender now txId proofs (e, g)) = (e, g)"
    by (auto simp: succeeds_def state_after_def split: sum.splits)
  with assms(1) show "m_status (multiLegTxs (fst (state_after (e, g)
          (executeMultiLegTx ok sender now txId proofs (e, g)))) txId) \<noteq> LegsCompleted"
    by simp
next
  from assms show "succeeds (legs_loop ok (s_this e) now (zip (m_legs (multiLegTxs e txId)) proofs) g [])
       = succeeds (executeMultiLegTx ok sender now txId proofs (e, g))"
    by (auto simp: executeMultiLegTx_def require_def bindE_def Let_def succeeds_def
          split: sum.splits prod.splits)
next
  fix e' g' fx u
  assume ex: "executeMultiLegTx ok sender now txId proofs (e, g) = Inr ((e', g'), fx, u)"
  then obtain marked' fx' where
    loop: "legs_loop ok (s_this e) now (zip (m_legs (multiLegTxs e txId)) proofs) g []
             = Inr (marked', g', fx')"
    and e': "multiLegTxs e' txId =
       (multiLegTxs e txId)\<lparr>m_status := Executing, m_legs := marked', m_status := LegsCompleted\<rparr>"
    using assms
    by (auto simp: executeMultiLegTx_def require_def bindE_def Let_def
          split: sum.splits prod.splits)
  from e' show "m_status (multiLegTxs e' txId) = LegsCompleted" by simp
  from legs_loop_Inr[OF loop] assms(2) e'
  show "m_legs (multiLegTxs e' txId) =
         map (\<lambda>l. l\<lparr>l_executed := True\<rparr>) (m_legs (multiLegTxs e txId))"
    by (simp add: map_fst_zip_same)
qed


text \<open>
  Two transactions of two native legs created by caller 20 in an engine at address 300: in
  the first the second leg has amount 0, which \<open>createPayment\<close> rejects; in the second both
  legs can execute.
\<close>

definition tx1 :: bytes32 where "tx1 = Keccak [20, 2, 0, 7]"
definition tx2 :: bytes32 where "tx2 = Keccak [20, 2, 1, 7]"

definition legs_engine :: engine where
  "legs_engine = fst (state_after
     (fst (state_after (engine_init 300, demo_gateway)
        (createMultiLegTx 20 7 [20, 20] [11, 12] [0, 0] [100, 0] (engine_init 300, demo_gateway))),
      demo_gateway)
     (createMultiLegTx 20 7 [20, 20] [11, 12] [0, 0] [100, 200]
        (fst (state_after (engine_init 300, demo_gateway)
           (createMultiLegTx 20 7 [20, 20] [11, 12] [0, 0] [100, 0] (engine_init 300, demo_gateway))),
         demo_gateway)))"

definition leg_a :: Leg where
  "leg_a = \<lparr>l_from = 20, l_to = 11, l_token = 0, l_amount = 100, l_executed = False\<rparr>"
definition leg_zero :: Leg where
  "leg_zero = \<lparr>l_from = 20, l_to = 12, l_token = 0, l_amount = 0, l_executed = False\<rparr>"
definition leg_b :: Leg where
  "leg_b = \<lparr>l_from = 20, l_to = 12, l_token = 0, l_amount = 200, l_executed = False\<rparr>"

lemma legs_engine_fields:
  "multiLegTxs legs_engine tx1 = \<lparr>m_id = tx1, m_legs = [leg_a, leg_zero], m_createdAt = 7,
     m_status = LegsPending\<rparr>"
  "multiLegTxs legs_engine tx2 = \<lparr>m_id = tx2, m_legs = [leg_a, leg_b], m_createdAt = 7,
     m_status = LegsPending\<rparr>"
  "s_this legs_engine = 300"
  by (simp_all add: legs_engine_def createMultiLegTx_def engine_init_def sol_defs state_after_def
        Let_def tx1_def tx2_def MAX_UINT256_def no_tx_def leg_a_def leg_zero_def leg_b_def)

lemma execute_leg_zero_amount:
  assumes "l_amount leg = 0" and "l_to leg \<noteq> 0" and "now + 3600 \<le> MAX_UINT256"
  shows "execute_leg ok this now leg pf g = Inl (Revert ''Invalid amount'')"
  using assms by (simp add: execute_leg_def createPayment_def sol_defs Let_def)

lemma leg_a_runs:
  "succeeds (execute_leg all_ok 300 8 leg_a [1] demo_gateway)"
  "succeeds (legs_loop all_ok 300 8 [(leg_a, [1])] demo_gateway [])"
  "succeeds (legs_loop all_ok 300 8 [(leg_a, [1]), (leg_b, [2])] demo_gateway [])"
  by (simp_all add: execute_leg_def createPayment_def executePayment_def sol_defs Let_def
        succeeds_def all_ok_def demo_gateway_def gateway_init_def leg_a_def leg_b_def
        MAX_UINT256_def msg_value_def)


lemma tx1_fails:
  "executeMultiLegTx all_ok 20 8 tx1 [[1], [2]] (legs_engine, demo_gateway)
     = Inl (Revert ''Invalid amount'')"
proof -
  from leg_a_runs(2) obtain marked g1 fx1 where
    a: "legs_loop all_ok 300 8 [(leg_a, [1])] demo_gateway [] = Inr (marked, g1, fx1)"
    by (auto simp: succeeds_def split: sum.splits)
  have b: "execute_leg all_ok 300 8 leg_zero [2] g1 = Inl (Revert ''Invalid amount'')"
    by (rule execute_leg_zero_amount) (simp_all add: leg_zero_def MAX_UINT256_def)
  from legs_loop_stops[OF a b, of "[]"]
  show ?thesis
    by (simp add: executeMultiLegTx_def require_def bindE_def Let_def legs_engine_fields)
qed

text \<open>
  The claim as stated fails where it says that the legs executed before the failing one are
  not reversed: the first leg of the first transaction executes on its own, the second leg
  fails, and after the call the first leg is not marked executed and the gateway holds no
  payment for it.
\<close>

theorem executeMultiLegTx_all_or_nothing_counterexample:
  "succeeds (execute_leg all_ok 300 8 leg_a [1] demo_gateway) \<and>
   executeMultiLegTx all_ok 20 8 tx1 [[1], [2]] (legs_engine, demo_gateway)
     = Inl (Revert ''Invalid amount'') \<and>
   state_after (legs_engine, demo_gateway)
     (executeMultiLegTx all_ok 20 8 tx1 [[1], [2]] (legs_engine, demo_gateway))
     = (legs_engine, demo_gateway) \<and>
   \<not> l_executed (m_legs (multiLegTxs (fst (state_after (legs_engine, demo_gateway)
        (executeMultiLegTx all_ok 20 8 tx1 [[1], [2]] (legs_engine, demo_gateway)))) tx1) ! 0) \<and>
   payments (snd (state_after (legs_engine, demo_gateway)
        (executeMultiLegTx all_ok 20 8 tx1 [[1], [2]] (legs_engine, demo_gateway))))
      (Keccak [300, 11, 100, 0, 8]) = no_payment"
proof -
  have s: "state_after (legs_engine, demo_gateway)
     (executeMultiLegTx all_ok 20 8 tx1 [[1], [2]] (legs_engine, demo_gateway))
     = (legs_engine, demo_gateway)"
    unfolding tx1_fails state_after_def by simp
  have l: "\<not> l_executed (m_legs (multiLegTxs legs_engine tx1) ! 0)"
    by (simp add: legs_engine_fields leg_a_def)
  have p: "payments demo_gateway (Keccak [300, 11, 100, 0, 8]) = no_payment"
    by (simp add: demo_gateway_def gateway_init_def)
  show ?thesis
    unfolding s fst_conv snd_conv using leg_a_runs(1) tx1_fails l p by blast
qed

text \<open>
  The first transaction fails at its second leg and changes nothing; the second one returns
  and ends Completed.
\<close>

theorem executeMultiLegTx_all_or_nothing_witness:
  "m_status (multiLegTxs legs_engine tx1) = LegsPending \<and>
   succeeds (legs_loop all_ok 300 8 [(leg_a, [1])] demo_gateway []) \<and>
   executeMultiLegTx all_ok 20 8 tx1 [[1], [2]] (legs_engine, demo_gateway)
     = Inl (Revert ''Invalid amount'') \<and>
   state_after (legs_engine, demo_gateway)
     (executeMultiLegTx all_ok 20 8 tx1 [[1], [2]] (legs_engine, demo_gateway))
     = (legs_engine, demo_gateway) \<and>
   succeeds (executeMultiLegTx all_ok 20 8 tx2 [[1], [2]] (legs_engine, demo_gateway)) \<and>
   m_status (multiLegTxs (fst (state_after (legs_engine, demo_gateway)
        (executeMultiLegTx all_ok 20 8 tx2 [[1], [2]] (legs_engine, demo_gateway)))) tx2)
     = LegsCompleted"
proof -
  have p1: "m_status (multiLegTxs legs_engine tx1) = LegsPending"
    and n1: "length [[1], [2::nat]] = length (m_legs (multiLegTxs legs_engine tx1))"
    and p2: "m_status (multiLegTxs legs_engine tx2) = LegsPending"
    and n2: "length [[1], [2::nat]] = length (m_legs (multiLegTxs legs_engine tx2))"
    by (simp_all add: legs_engine_fields)
  from leg_a_runs(2) obtain marked g1 fx1 where
    a: "legs_loop all_ok 300 8 [(leg_a, [1])] demo_gateway [] = Inr (marked, g1, fx1)"
    by (auto simp: succeeds_def split: sum.splits)
  have b: "execute_leg all_ok 300 8 leg_zero [2] g1 = Inl (Revert ''Invalid amount'')"
    by (rule execute_leg_zero_amount) (simp_all add: leg_zero_def MAX_UINT256_def)
  note T1 = executeMultiLegTx_all_or_nothing[OF p1 n1, where before = "[leg_a]" and leg = leg_zero
      and after = "[]" and proofs_before = "[[1]]" and pf = "[2]" and proofs_after = "[]"
      and ok = all_ok and now = 8 and g = demo_gateway and marked = marked and ?g1.0 = g1
      and ?fx1.0 = fx1 and err = "Revert ''Invalid amount''" and sender = 20]
  from T1 a b have f: "executeMultiLegTx all_ok 20 8 tx1 [[1], [2]] (legs_engine, demo_gateway)
     = Inl (Revert ''Invalid amount'')"
    by (simp add: legs_engine_fields)
  from T1 f have s: "state_after (legs_engine, demo_gateway)
     (executeMultiLegTx all_ok 20 8 tx1 [[1], [2]] (legs_engine, demo_gateway))
     = (legs_engine, demo_gateway)" by (simp add: succeeds_def)
  note T2 = executeMultiLegTx_all_or_nothing[OF p2 n2, where ok = all_ok and now = 8
      and g = demo_gateway and sender = 20]
  from T2 leg_a_runs(3)
  have ok2: "succeeds (executeMultiLegTx all_ok 20 8 tx2 [[1], [2]] (legs_engine, demo_gateway))"
    by (simp add: legs_engine_fields)
  then obtain e' g' fx u where
    r: "executeMultiLegTx all_ok 20 8 tx2 [[1], [2]] (legs_engine, demo_gateway) = Inr ((e', g'), fx, u)"
    by (auto simp: succeeds_def split: sum.splits)
  from T2 r have "m_status (multiLegTxs e' tx2) = LegsCompleted" by blast
  with r have c: "m_status (multiLegTxs (fst (state_after (legs_engine, demo_gateway)
        (executeMultiLegTx all_ok 20 8 tx2 [[1], [2]] (legs_engine, demo_gateway)))) tx2)
     = LegsCompleted" by (simp add: state_after_def)
  from p1 leg_a_runs(2) f s ok2 c show ?thesis by blast
qed

section \<open>EscrowManager: milestone escrows (contracts/EscrowManager.sol)\<close>

text \<open>
  The milestone half of the contract. The standard escrows (\<open>createEscrow\<close>,
  \<open>releaseEscrow\<close>, \<open>refundEscrow\<close>, \<open>disputeEscrow\<close>) live in a mapping of their own and
  are not modelled; they share only the id counter with the milestone escrows.
\<close>

datatype MilestoneEscrowStatus = Active | Completed | EscrowCancelled

record Milestone =
  ms_description :: string
  ms_amount :: nat
  completed :: bool
  released :: bool

record MilestoneEscrow =
  me_id :: bytes32
  depositor :: address
  beneficiary :: address
  arbiter :: address
  me_token :: address
  totalAmount :: nat
  milestones :: "Milestone list"
  releasedAmount :: nat
  me_status :: MilestoneEscrowStatus

record escrow_manager =
  em_this :: address
  milestoneEscrows :: "bytes32 \<Rightarrow> MilestoneEscrow"
  em_protocolFee :: nat
  em_feeRecipient :: address
  em_nonce :: nat

definition no_milestone_escrow :: MilestoneEscrow where
  "no_milestone_escrow = \<lparr>me_id = Zero32, depositor = 0, beneficiary = 0, arbiter = 0,
     me_token = 0, totalAmount = 0, milestones = [], releasedAmount = 0, me_status = Active\<rparr>"

definition escrow_manager_init :: "address \<Rightarrow> address \<Rightarrow> escrow_manager" where
  "escrow_manager_init this recipient =
     \<lparr>em_this = this, milestoneEscrows = (\<lambda>i. no_milestone_escrow), em_protocolFee = 50,
      em_feeRecipient = recipient, em_nonce = 0\<rparr>"

text \<open>The loop \<open>totalAmount += amounts[i]\<close>.\<close>

fun sum_amounts :: "nat list \<Rightarrow> nat \<Rightarrow> error + nat" where
  "sum_amounts [] acc = Inr acc"
| "sum_amounts (a # amounts) acc =
     bindE (checked_add acc a) (\<lambda>acc'. sum_amounts amounts acc')"

text \<open>The loop that pushes one milestone per description.\<close>

fun new_milestones :: "string list \<Rightarrow> nat list \<Rightarrow> Milestone list" where
  "new_milestones (d # descriptions) (a # amounts) =
     \<lparr>ms_description = d, ms_amount = a, completed = False, released = False\<rparr>
       # new_milestones descriptions amounts"
| "new_milestones descriptions amounts = []"

definition createMilestoneEscrow :: "escrow_manager adapter \<Rightarrow> address \<Rightarrow> nat \<Rightarrow> nat \<Rightarrow> address
    \<Rightarrow> address \<Rightarrow> address \<Rightarrow> string list \<Rightarrow> nat list \<Rightarrow> escrow_manager
    \<Rightarrow> error + (escrow_manager \<times> effect list \<times> bytes32)" where
  "createMilestoneEscrow ok sender val now beneficiary' arbiter' token descriptions amounts s =
     require (length descriptions = length amounts) ''Array mismatch''
    (require (length descriptions > 0 \<and> length descriptions \<le> 20) ''Invalid milestone count''
    (bindE (sum_amounts amounts 0) (\<lambda>totalAmount'.
     let locked = Transfer token sender (em_this s) totalAmount' in
     (if token = 0 then require (val \<ge> totalAmount') ''Insufficient CRO''
      else safeTransfer ok locked s)
    (bindE (checked_add (em_nonce s) 1) (\<lambda>nonce'.
     let escrowId = Keccak [sender, beneficiary', totalAmount', em_nonce s, now];
         mEscrow = milestoneEscrows s escrowId;
         mEscrow' = mEscrow\<lparr>me_id := escrowId, depositor := sender, beneficiary := beneficiary',
                      arbiter := arbiter', me_token := token, totalAmount := totalAmount',
                      me_status := Active,
                      milestones := milestones mEscrow @ new_milestones descriptions amounts\<rparr>
     in Inr (s\<lparr>em_nonce := nonce',
                milestoneEscrows := (milestoneEscrows s)(escrowId := mEscrow')\<rparr>,
             msg_value sender (em_this s) val
               @ (if token = 0 then [] else [Moved locked])
               @ [Emit (MilestoneEscrowCreated escrowId sender beneficiary' totalAmount')],
             escrowId))))))"

definition completeMilestone :: "address \<Rightarrow> bytes32 \<Rightarrow> nat \<Rightarrow> escrow_manager
    \<Rightarrow> error + (escrow_manager \<times> effect list \<times> unit)" where
  "completeMilestone sender escrowId milestoneIndex s =
     (let mEscrow = milestoneEscrows s escrowId in
      require (me_status mEscrow = Active) ''Invalid status''
     (require (sender = depositor mEscrow \<or> sender = arbiter mEscrow) ''Not authorized''
     (require (milestoneIndex < length (milestones mEscrow)) ''Invalid index''
     (require (\<not> completed (milestones mEscrow ! milestoneIndex)) ''Already completed''
       (Inr (s\<lparr>milestoneEscrows := (milestoneEscrows s)(escrowId :=
                  mEscrow\<lparr>milestones := (milestones mEscrow)[milestoneIndex :=
                     (milestones mEscrow ! milestoneIndex)\<lparr>completed := True\<rparr>]\<rparr>)\<rparr>,
             [Emit (MilestoneCompleted escrowId milestoneIndex)], ()))))))"

text \<open>The loop "Check if all milestones are released", which stops at the first that is not.\<close>

fun allReleased :: "Milestone list \<Rightarrow> bool" where
  "allReleased [] = True"
| "allReleased (m # ms) = (if \<not> released m then False else allReleased ms)"

definition releaseMilestone :: "escrow_manager adapter \<Rightarrow> address \<Rightarrow> bytes32 \<Rightarrow> nat \<Rightarrow> escrow_manager
    \<Rightarrow> error + (escrow_manager \<times> effect list \<times> unit)" where
  "releaseMilestone ok sender escrowId milestoneIndex s =
     (let mEscrow = milestoneEscrows s escrowId in
      require (me_status mEscrow = Active) ''Invalid status''
     (require (milestoneIndex < length (milestones mEscrow)) ''Invalid index''
     (let milestone = milestones mEscrow ! milestoneIndex in
      require (completed milestone) ''Not completed''
     (require (\<not> released milestone) ''Already released''
     (bindE (checked_add (releasedAmount mEscrow) (ms_amount milestone)) (\<lambda>releasedAmount'.
      let mEscrow1 = mEscrow\<lparr>milestones := (milestones mEscrow)[milestoneIndex :=
                        milestone\<lparr>released := True\<rparr>],
                      releasedAmount := releasedAmount'\<rparr>;
          s1 = s\<lparr>milestoneEscrows := (milestoneEscrows s)(escrowId := mEscrow1)\<rparr>
      in
      bindE (checked_mul (ms_amount milestone) (em_protocolFee s)) (\<lambda>product.
      let fee = product div 10000 in
      bindE (checked_sub (ms_amount milestone) fee) (\<lambda>netAmount.
      let to_beneficiary = Transfer (me_token mEscrow) (em_this s) (beneficiary mEscrow) netAmount;
          to_fees = Transfer (me_token mEscrow) (em_this s) (em_feeRecipient s) fee;
          paid = [Moved to_beneficiary] @ (if fee > 0 then [Moved to_fees] else []);
          mEscrow2 = (if allReleased (milestones mEscrow1)
                      then mEscrow1\<lparr>me_status := Completed\<rparr> else mEscrow1);
          finish = Inr (s1\<lparr>milestoneEscrows := (milestoneEscrows s1)(escrowId := mEscrow2)\<rparr>,
                        paid @ [Emit (MilestoneReleased escrowId milestoneIndex netAmount)], ())
      in if me_token mEscrow = 0 then
           send_value ok to_beneficiary s1 ''Transfer failed''
             (if fee > 0 then send_value ok to_fees s1 ''Fee transfer failed'' finish else finish)
         else
           safeTransfer ok to_beneficiary s1
             (if fee > 0 then safeTransfer ok to_fees s1 finish else finish)))))))))"

datatype escrow_call =
    CreateMilestoneEscrow address nat nat address address address "string list" "nat list"
  | CompleteMilestone address bytes32 nat
  | ReleaseMilestone address bytes32 nat

fun escrow_step :: "escrow_manager adapter \<Rightarrow> escrow_manager \<Rightarrow> escrow_call \<Rightarrow> escrow_manager" where
  "escrow_step ok s (CreateMilestoneEscrow sender val now b a token ds amounts) =
     state_after s (createMilestoneEscrow ok sender val now b a token ds amounts s)"
| "escrow_step ok s (CompleteMilestone sender i k) = state_after s (completeMilestone sender i k s)"
| "escrow_step ok s (ReleaseMilestone sender i k) = state_after s (releaseMilestone ok sender i k s)"

definition escrow_run :: "escrow_manager adapter \<Rightarrow> escrow_manager \<Rightarrow> escrow_call list \<Rightarrow> escrow_manager" where
  "escrow_run ok s cs = foldl (escrow_step ok) s cs"

subsection \<open>What the manager keeps true of every milestone escrow\<close>

subsection \<open>The accounts of a milestone escrow\<close>

text \<open>
  A created milestone escrow keeps its books: it has between 1 and 20 milestones,
  \<open>totalAmount\<close> is the sum of their amounts, \<open>releasedAmount\<close> is the sum of the amounts of
  the released ones, and its status is \<open>Completed\<close> exactly when all are released,
  \<open>Active\<close> otherwise. Every slot of the mapping is either untouched or holds such an escrow
  under an id that was made from an earlier value of the counter.
\<close>

definition escrow_ok :: "MilestoneEscrow \<Rightarrow> bool" where
  "escrow_ok m \<longleftrightarrow>
     milestones m \<noteq> [] \<and> length (milestones m) \<le> 20 \<and>
     totalAmount m = sum_list (map ms_amount (milestones m)) \<and>
     releasedAmount m = sum_list (map ms_amount (filter released (milestones m))) \<and>
     me_status m = (if list_all released (milestones m) then Completed else Active)"

definition manager_ok :: "escrow_manager \<Rightarrow> bool" where
  "manager_ok s \<longleftrightarrow>
     (\<forall>i. milestoneEscrows s i = no_milestone_escrow \<or>
        (escrow_ok (milestoneEscrows s i) \<and>
         (\<exists>d b t n ts. i = Keccak [d, b, t, n, ts] \<and> n < em_nonce s)))"

lemma sum_amounts_Inr: "sum_amounts xs acc = Inr t \<Longrightarrow> t = acc + sum_list xs"
proof (induction xs arbitrary: acc)
  case Nil
  then show ?case by simp
next
  case (Cons a xs)
  from Cons.prems have "sum_amounts xs (acc + a) = Inr t"
    by (auto simp: bindE_def checked_add_def split: if_splits)
  from Cons.IH[OF this] show ?case by simp
qed

lemma new_milestones_facts:
  assumes "length ds = length xs"
  shows "map ms_amount (new_milestones ds xs) = xs"
    and "filter released (new_milestones ds xs) = []"
    and "length (new_milestones ds xs) = length xs"
    and "xs \<noteq> [] \<Longrightarrow> \<not> list_all released (new_milestones ds xs)"
  using assms by (induction ds xs rule: list_induct2) simp_all

lemma allReleased_iff: "allReleased ms = list_all released ms"
  by (induction ms) simp_all

lemma released_sum_le:
  "sum_list (map ms_amount (filter released ms)) \<le> sum_list (map ms_amount ms)"
  by (induction ms) simp_all

lemma release_update_sums:
  assumes "k < length ms" and "\<not> released (ms ! k)"
  shows "sum_list (map ms_amount (filter released (ms[k := (ms ! k)\<lparr>released := True\<rparr>]))) =
           sum_list (map ms_amount (filter released ms)) + ms_amount (ms ! k)"
    and "sum_list (map ms_amount (ms[k := (ms ! k)\<lparr>released := True\<rparr>])) =
           sum_list (map ms_amount ms)"
  using assms
proof (induction ms arbitrary: k)
  case Nil
  { case 1 then show ?case by simp }
  { case 2 then show ?case by simp }
next
  case (Cons m ms)
  { case 1 then show ?case using Cons.IH(1) by (cases k) simp_all }
  { case 2 then show ?case using Cons.IH(2) by (cases k) simp_all }
qed

lemma complete_update_sums:
  assumes "k < length ms"
  shows "map ms_amount (filter released (ms[k := (ms ! k)\<lparr>completed := True\<rparr>])) =
           map ms_amount (filter released ms)"
    and "map ms_amount (ms[k := (ms ! k)\<lparr>completed := True\<rparr>]) = map ms_amount ms"
    and "list_all released (ms[k := (ms ! k)\<lparr>completed := True\<rparr>]) = list_all released ms"
  using assms
proof (induction ms arbitrary: k)
  case Nil
  { case 1 then show ?case by simp }
  { case 2 then show ?case by simp }
  { case 3 then show ?case by simp }
next
  case (Cons m ms)
  { case 1 then show ?case using Cons.IH(1) by (cases k) simp_all }
  { case 2 then show ?case using Cons.IH(2) by (cases k) simp_all }
  { case 3 then show ?case using Cons.IH(3) by (cases k) simp_all }
qed

lemma release_update_all:
  assumes "k < length ms"
  shows "list_all released (ms[k := (ms ! k)\<lparr>released := True\<rparr>]) \<longleftrightarrow>
           (\<forall>j < length ms. j \<noteq> k \<longrightarrow> released (ms ! j))"
  using assms
  by (auto simp: list_all_length nth_list_update)


lemma createMilestoneEscrow_Inr:
  assumes "createMilestoneEscrow ok sender val now b a token ds amounts s = Inr (s', fx, i)"
  shows "i = Keccak [sender, b, sum_list amounts, em_nonce s, now]"
    and "length ds = length amounts" and "amounts \<noteq> []" and "length amounts \<le> 20"
    and "em_nonce s' = em_nonce s + 1"
    and "milestoneEscrows s' = (milestoneEscrows s)(i :=
           (milestoneEscrows s i)\<lparr>me_id := i, depositor := sender, beneficiary := b,
              arbiter := a, me_token := token, totalAmount := sum_list amounts,
              me_status := Active,
              milestones := milestones (milestoneEscrows s i) @ new_milestones ds amounts\<rparr>)"
    and "fx = msg_value sender (em_this s) val
           @ (if token = 0 then []
              else [Moved (Transfer token sender (em_this s) (sum_list amounts))])
           @ [Emit (MilestoneEscrowCreated i sender b (sum_list amounts))]"
    and "token = 0 \<longrightarrow> sum_list amounts \<le> val"
proof -
  from assms obtain t where t: "sum_amounts amounts 0 = Inr t"
    by (auto simp: createMilestoneEscrow_def require_def bindE_def split: if_splits sum.splits)
  from sum_amounts_Inr[OF t] have te: "t = sum_list amounts" by simp
  from assms t te show "i = Keccak [sender, b, sum_list amounts, em_nonce s, now]"
    and "length ds = length amounts" and "amounts \<noteq> []" and "length amounts \<le> 20"
    and "em_nonce s' = em_nonce s + 1"
    and "milestoneEscrows s' = (milestoneEscrows s)(i :=
           (milestoneEscrows s i)\<lparr>me_id := i, depositor := sender, beneficiary := b,
              arbiter := a, me_token := token, totalAmount := sum_list amounts,
              me_status := Active,
              milestones := milestones (milestoneEscrows s i) @ new_milestones ds amounts\<rparr>)"
    and "fx = msg_value sender (em_this s) val
           @ (if token = 0 then []
              else [Moved (Transfer token sender (em_this s) (sum_list amounts))])
           @ [Emit (MilestoneEscrowCreated i sender b (sum_list amounts))]"
    and "token = 0 \<longrightarrow> sum_list amounts \<le> val"
    by (auto simp: createMilestoneEscrow_def sol_defs Let_def split: if_splits)
qed

lemma completeMilestone_Inr:
  assumes "completeMilestone sender i k s = Inr (s', fx, u)"
  shows "k < length (milestones (milestoneEscrows s i))"
    and "em_nonce s' = em_nonce s"
    and "milestoneEscrows s' = (milestoneEscrows s)(i := (milestoneEscrows s i)
           \<lparr>milestones := (milestones (milestoneEscrows s i))[k :=
               (milestones (milestoneEscrows s i) ! k)\<lparr>completed := True\<rparr>]\<rparr>)"
  using assms by (auto simp: completeMilestone_def sol_defs Let_def split: if_splits)

lemma releaseMilestone_Inr:
  assumes "releaseMilestone ok sender i k s = Inr (s', fx, u)"
  shows "me_status (milestoneEscrows s i) = Active"
    and "k < length (milestones (milestoneEscrows s i))"
    and "completed (milestones (milestoneEscrows s i) ! k)"
    and "\<not> released (milestones (milestoneEscrows s i) ! k)"
    and "em_nonce s' = em_nonce s"
    and "ms_amount (milestones (milestoneEscrows s i) ! k) * em_protocolFee s div 10000
           \<le> ms_amount (milestones (milestoneEscrows s i) ! k)"
    and "milestoneEscrows s' = (milestoneEscrows s)(i := (milestoneEscrows s i)
           \<lparr>milestones := (milestones (milestoneEscrows s i))[k :=
               (milestones (milestoneEscrows s i) ! k)\<lparr>released := True\<rparr>],
            releasedAmount := releasedAmount (milestoneEscrows s i)
               + ms_amount (milestones (milestoneEscrows s i) ! k),
            me_status := (if allReleased ((milestones (milestoneEscrows s i))[k :=
               (milestones (milestoneEscrows s i) ! k)\<lparr>released := True\<rparr>])
               then Completed else Active)\<rparr>)"
    and "fx = [Moved (Transfer (me_token (milestoneEscrows s i)) (em_this s)
                 (beneficiary (milestoneEscrows s i))
                 (ms_amount (milestones (milestoneEscrows s i) ! k)
                    - ms_amount (milestones (milestoneEscrows s i) ! k) * em_protocolFee s div 10000))]
            @ (if ms_amount (milestones (milestoneEscrows s i) ! k) * em_protocolFee s div 10000 > 0
               then [Moved (Transfer (me_token (milestoneEscrows s i)) (em_this s)
                       (em_feeRecipient s)
                       (ms_amount (milestones (milestoneEscrows s i) ! k) * em_protocolFee s div 10000))]
               else [])
            @ [Emit (MilestoneReleased i k
                 (ms_amount (milestones (milestoneEscrows s i) ! k)
                    - ms_amount (milestones (milestoneEscrows s i) ! k) * em_protocolFee s div 10000))]"
  using assms
  by (auto simp: releaseMilestone_def sol_defs Let_def split: if_splits)


lemma manager_ok_init: "manager_ok (escrow_manager_init this recipient)"
  by (simp add: manager_ok_def escrow_manager_init_def)

lemma fresh_slot:
  assumes "manager_ok s"
  shows "milestoneEscrows s (Keccak [d, b, t, em_nonce s, ts]) = no_milestone_escrow"
proof -
  from assms have "milestoneEscrows s (Keccak [d, b, t, em_nonce s, ts]) = no_milestone_escrow \<or>
      (\<exists>d' b' t' n ts'. Keccak [d, b, t, em_nonce s, ts] = Keccak [d', b', t', n, ts']
          \<and> n < em_nonce s)"
    unfolding manager_ok_def by blast
  then show ?thesis by auto
qed

lemma manager_ok_create:
  assumes ok: "manager_ok s"
    and cr: "createMilestoneEscrow adapter sender val now b a token ds amounts s = Inr (s', fx, i)"
  shows "manager_ok s'"
    and "milestoneEscrows s' i = \<lparr>me_id = i, depositor = sender, beneficiary = b, arbiter = a,
           me_token = token, totalAmount = sum_list amounts,
           milestones = new_milestones ds amounts, releasedAmount = 0, me_status = Active\<rparr>"
proof -
  note C = createMilestoneEscrow_Inr[OF cr]
  from fresh_slot[OF ok] C(1) have fresh: "milestoneEscrows s i = no_milestone_escrow" by simp
  with C(6) show new: "milestoneEscrows s' i = \<lparr>me_id = i, depositor = sender, beneficiary = b,
           arbiter = a, me_token = token, totalAmount = sum_list amounts,
           milestones = new_milestones ds amounts, releasedAmount = 0, me_status = Active\<rparr>"
    by (simp add: no_milestone_escrow_def)
  have eo: "escrow_ok (milestoneEscrows s' i)"
    unfolding new escrow_ok_def using new_milestones_facts[OF C(2)] C(3,4)
    by (cases "new_milestones ds amounts") auto
  show "manager_ok s'"
    unfolding manager_ok_def
  proof
    fix j
    show "milestoneEscrows s' j = no_milestone_escrow \<or>
        (escrow_ok (milestoneEscrows s' j) \<and>
         (\<exists>d b t n ts. j = Keccak [d, b, t, n, ts] \<and> n < em_nonce s'))"
    proof (cases "j = i")
      case True
      with eo C(1,5) show ?thesis by auto
    next
      case False
      with C(6) have "milestoneEscrows s' j = milestoneEscrows s j" by simp
      moreover from ok have "milestoneEscrows s j = no_milestone_escrow \<or>
        (escrow_ok (milestoneEscrows s j) \<and>
         (\<exists>d b t n ts. j = Keccak [d, b, t, n, ts] \<and> n < em_nonce s))"
        unfolding manager_ok_def by blast
      ultimately show ?thesis using C(5) by auto
    qed
  qed
qed

lemma manager_ok_update:
  assumes ok: "manager_ok s"
    and upd: "milestoneEscrows s' = (milestoneEscrows s)(i := m')"
    and n: "em_nonce s' = em_nonce s"
    and touched: "milestoneEscrows s i \<noteq> no_milestone_escrow"
    and m': "escrow_ok m'"
  shows "manager_ok s'"
  unfolding manager_ok_def
proof
  fix j
  show "milestoneEscrows s' j = no_milestone_escrow \<or>
        (escrow_ok (milestoneEscrows s' j) \<and>
         (\<exists>d b t n ts. j = Keccak [d, b, t, n, ts] \<and> n < em_nonce s'))"
  proof (cases "j = i")
    case True
    from ok touched have "\<exists>d b t n ts. i = Keccak [d, b, t, n, ts] \<and> n < em_nonce s"
      unfolding manager_ok_def by blast
    with True upd n m' show ?thesis by simp
  next
    case False
    with upd have "milestoneEscrows s' j = milestoneEscrows s j" by simp
    moreover from ok have "milestoneEscrows s j = no_milestone_escrow \<or>
        (escrow_ok (milestoneEscrows s j) \<and>
         (\<exists>d b t n ts. j = Keccak [d, b, t, n, ts] \<and> n < em_nonce s))"
      unfolding manager_ok_def by blast
    ultimately show ?thesis using n by auto
  qed
qed

lemma manager_ok_complete:
  assumes ok: "manager_ok s" and c: "completeMilestone sender i k s = Inr (s', fx, u)"
  shows "manager_ok s'"
proof -
  note C = completeMilestone_Inr[OF c]
  from C(1) have touched: "milestoneEscrows s i \<noteq> no_milestone_escrow"
    by (auto simp: no_milestone_escrow_def)
  with ok have eo: "escrow_ok (milestoneEscrows s i)" unfolding manager_ok_def by blast
  have "escrow_ok ((milestoneEscrows s i)
           \<lparr>milestones := (milestones (milestoneEscrows s i))[k :=
               (milestones (milestoneEscrows s i) ! k)\<lparr>completed := True\<rparr>]\<rparr>)"
    using eo complete_update_sums[OF C(1)] by (simp add: escrow_ok_def)
  from manager_ok_update[OF ok C(3) C(2) touched this] show ?thesis .
qed

lemma manager_ok_release:
  assumes ok: "manager_ok s" and r: "releaseMilestone adapter sender i k s = Inr (s', fx, u)"
  shows "manager_ok s'"
proof -
  note R = releaseMilestone_Inr[OF r]
  from R(2) have touched: "milestoneEscrows s i \<noteq> no_milestone_escrow"
    by (auto simp: no_milestone_escrow_def)
  with ok have eo: "escrow_ok (milestoneEscrows s i)" unfolding manager_ok_def by blast
  have "escrow_ok ((milestoneEscrows s i)
           \<lparr>milestones := (milestones (milestoneEscrows s i))[k :=
               (milestones (milestoneEscrows s i) ! k)\<lparr>released := True\<rparr>],
            releasedAmount := releasedAmount (milestoneEscrows s i)
               + ms_amount (milestones (milestoneEscrows s i) ! k),
            me_status := (if allReleased ((milestones (milestoneEscrows s i))[k :=
               (milestones (milestoneEscrows s i) ! k)\<lparr>released := True\<rparr>])
               then Completed else Active)\<rparr>)"
    using eo release_update_sums[OF R(2) R(4)]
    by (simp add: escrow_ok_def allReleased_iff)
  from manager_ok_update[OF ok R(7) R(5) touched this] show ?thesis .
qed

lemma manager_ok_step: "manager_ok s \<Longrightarrow> manager_ok (escrow_step adapter s c)"
proof (cases c)
  case (CreateMilestoneEscrow sender val now b a token ds amounts)
  assume ok: "manager_ok s"
  show ?thesis
  proof (cases "createMilestoneEscrow adapter sender val now b a token ds amounts s")
    case (Inl e)
    with ok CreateMilestoneEscrow show ?thesis by (simp add: state_after_def)
  next
    case (Inr r)
    obtain s' fx i where "r = (s', fx, i)" by (cases r)
    with Inr manager_ok_create(1)[OF ok] CreateMilestoneEscrow show ?thesis
      by (simp add: state_after_def)
  qed
next
  case (CompleteMilestone sender i k)
  assume ok: "manager_ok s"
  show ?thesis
  proof (cases "completeMilestone sender i k s")
    case (Inl e)
    with ok CompleteMilestone show ?thesis by (simp add: state_after_def)
  next
    case (Inr r)
    obtain s' fx u where "r = (s', fx, u)" by (cases r)
    with Inr manager_ok_complete[OF ok] CompleteMilestone show ?thesis
      by (simp add: state_after_def)
  qed
next
  case (ReleaseMilestone sender i k)
  assume ok: "manager_ok s"
  show ?thesis
  proof (cases "releaseMilestone adapter sender i k s")
    case (Inl e)
    with ok ReleaseMilestone show ?thesis by (simp add: state_after_def)
  next
    case (Inr r)
    obtain s' fx u where "r = (s', fx, u)" by (cases r)
    with Inr manager_ok_release[OF ok] ReleaseMilestone show ?thesis
      by (simp add: state_after_def)
  qed
qed

lemma manager_ok_run: "manager_ok s \<Longrightarrow> manager_ok (escrow_run adapter s cs)"
  unfolding escrow_run_def by (induction cs arbitrary: s) (simp_all add: manager_ok_step)

lemma manager_ok_released_le:
  assumes "manager_ok s"
  shows "releasedAmount (milestoneEscrows s i) \<le> totalAmount (milestoneEscrows s i)"
proof (cases "milestoneEscrows s i = no_milestone_escrow")
  case True
  then show ?thesis by (simp add: no_milestone_escrow_def)
next
  case False
  with assms have "escrow_ok (milestoneEscrows s i)" unfolding manager_ok_def by blast
  then show ?thesis by (simp add: escrow_ok_def released_sum_le)
qed

subsection \<open>Milestone accounting\<close>

text \<open>
  A concrete escrow: depositor 10 locks 4000 of CRO for beneficiary 11 with arbiter 12, in four
  milestones of 500, 1500, 1500 and 500; \<open>em_three\<close> is the manager after all four were marked
  completed and the first three released.
\<close>

definition em0 :: escrow_manager where
  "em0 = escrow_manager_init 400 2"

definition ms_id :: bytes32 where
  "ms_id = Keccak [10, 11, 4000, 0, 5]"

definition em_created :: escrow_manager where
  "em_created = escrow_run all_ok em0
     [CreateMilestoneEscrow 10 4000 5 11 12 0 [''design'', ''build'', ''test'', ''ship'']
        [500, 1500, 1500, 500]]"

definition em_three :: escrow_manager where
  "em_three = escrow_run all_ok em_created
     [CompleteMilestone 10 ms_id 0, CompleteMilestone 10 ms_id 1, CompleteMilestone 12 ms_id 2,
      CompleteMilestone 12 ms_id 3,
      ReleaseMilestone 13 ms_id 0, ReleaseMilestone 13 ms_id 1, ReleaseMilestone 13 ms_id 2]"

text \<open>
  Claim C9, as amended. In a manager whose escrows satisfy \<open>manager_ok\<close> (the initial manager
  does, and every transaction keeps it): when \<open>createMilestoneEscrow\<close> returns there are
  between 1 and 20 milestones, \<open>totalAmount\<close> is the sum of their amounts, nothing is
  released and the status is Active. The call took the whole \<open>msg.value\<close> from the depositor;
  for an ERC-20 escrow it also took exactly the sum in the token, for a CRO escrow the
  \<open>msg.value\<close> is at least the sum and may be more. When \<open>releaseMilestone\<close> returns, the escrow was Active and the
  milestone was completed and not released; its amount minus the fee is the first transfer and
  goes to the beneficiary; the milestone is now released and \<open>releasedAmount\<close> grew by its
  amount; and the status is Completed exactly when every other milestone had been released
  already. After every sequence of transactions \<open>releasedAmount\<close> is at most
  \<open>totalAmount\<close>, for every escrow.
\<close>

theorem milestone_escrow_accounts:
  assumes "manager_ok s"
  shows
   "(createMilestoneEscrow ok sender val now b a token ds amounts s = Inr (s1, fx1, i) \<longrightarrow>
       1 \<le> length amounts \<and> length amounts \<le> 20 \<and>
       totalAmount (milestoneEscrows s1 i) = sum_list amounts \<and>
       map ms_amount (milestones (milestoneEscrows s1 i)) = amounts \<and>
       releasedAmount (milestoneEscrows s1 i) = 0 \<and>
       me_status (milestoneEscrows s1 i) = Active \<and>
       outflow 0 sender fx1 = val \<and>
       (if token = 0 then sum_list amounts \<le> val
        else outflow token sender fx1 = sum_list amounts) \<and>
       manager_ok s1) \<and>
    (releaseMilestone ok sender j k s = Inr (s2, fx2, u) \<longrightarrow>
       me_status (milestoneEscrows s j) = Active \<and>
       k < length (milestones (milestoneEscrows s j)) \<and>
       completed (milestones (milestoneEscrows s j) ! k) \<and>
       \<not> released (milestones (milestoneEscrows s j) ! k) \<and>
       hd fx2 = Moved (Transfer (me_token (milestoneEscrows s j)) (em_this s)
                  (beneficiary (milestoneEscrows s j))
                  (ms_amount (milestones (milestoneEscrows s j) ! k)
                     - ms_amount (milestones (milestoneEscrows s j) ! k) * em_protocolFee s div 10000)) \<and>
       released (milestones (milestoneEscrows s2 j) ! k) \<and>
       releasedAmount (milestoneEscrows s2 j) =
         releasedAmount (milestoneEscrows s j) + ms_amount (milestones (milestoneEscrows s j) ! k) \<and>
       (me_status (milestoneEscrows s2 j) = Completed \<longleftrightarrow>
          (\<forall>l < length (milestones (milestoneEscrows s j)).
              l \<noteq> k \<longrightarrow> released (milestones (milestoneEscrows s j) ! l))) \<and>
       manager_ok s2) \<and>
    (\<forall>cs e. releasedAmount (milestoneEscrows (escrow_run ok s cs) e)
               \<le> totalAmount (milestoneEscrows (escrow_run ok s cs) e))"
proof (intro conjI impI allI)
  assume cr: "createMilestoneEscrow ok sender val now b a token ds amounts s = Inr (s1, fx1, i)"
  note C = createMilestoneEscrow_Inr[OF cr]
  note N = manager_ok_create[OF assms cr]
  from C(3) show "1 \<le> length amounts" by (cases amounts) simp_all
  from C(4) show "length amounts \<le> 20" .
  from N(2) show "totalAmount (milestoneEscrows s1 i) = sum_list amounts" by simp
  from N(2) new_milestones_facts(1)[OF C(2)]
  show "map ms_amount (milestones (milestoneEscrows s1 i)) = amounts" by simp
  from N(2) show "releasedAmount (milestoneEscrows s1 i) = 0" by simp
  from N(2) show "me_status (milestoneEscrows s1 i) = Active" by simp
  from C(7) show "outflow 0 sender fx1 = val"
    by (auto simp: msg_value_def)
  from C(7,8) show "if token = 0 then sum_list amounts \<le> val
        else outflow token sender fx1 = sum_list amounts"
    by (auto simp: msg_value_def)
  from N(1) show "manager_ok s1" .
next
  assume r: "releaseMilestone ok sender j k s = Inr (s2, fx2, u)"
  note R = releaseMilestone_Inr[OF r]
  from R(1) show "me_status (milestoneEscrows s j) = Active" .
  from R(2) show "k < length (milestones (milestoneEscrows s j))" .
  from R(3) show "completed (milestones (milestoneEscrows s j) ! k)" .
  from R(4) show "\<not> released (milestones (milestoneEscrows s j) ! k)" .
  from R(8) show "hd fx2 = Moved (Transfer (me_token (milestoneEscrows s j)) (em_this s)
                  (beneficiary (milestoneEscrows s j))
                  (ms_amount (milestones (milestoneEscrows s j) ! k)
                     - ms_amount (milestones (milestoneEscrows s j) ! k) * em_protocolFee s div 10000))"
    by simp
  from R(7) R(2) show "released (milestones (milestoneEscrows s2 j) ! k)" by simp
  from R(7) show "releasedAmount (milestoneEscrows s2 j) =
         releasedAmount (milestoneEscrows s j) + ms_amount (milestones (milestoneEscrows s j) ! k)"
    by simp
  from R(7) release_update_all[OF R(2)]
  show "me_status (milestoneEscrows s2 j) = Completed \<longleftrightarrow>
          (\<forall>l < length (milestones (milestoneEscrows s j)).
              l \<noteq> k \<longrightarrow> released (milestones (milestoneEscrows s j) ! l))"
    by (simp add: allReleased_iff)
  from manager_ok_release[OF assms r] show "manager_ok s2" .
next
  fix cs e
  from manager_ok_run[OF assms] have "manager_ok (escrow_run ok s cs)" .
  then show "releasedAmount (milestoneEscrows (escrow_run ok s cs) e)
               \<le> totalAmount (milestoneEscrows (escrow_run ok s cs) e)"
    by (rule manager_ok_released_le)
qed

lemma em_created_eq:
  "createMilestoneEscrow all_ok 10 4000 5 11 12 0 [''design'', ''build'', ''test'', ''ship'']
        [500, 1500, 1500, 500] em0 =
     Inr (em_created, [Moved (Transfer 0 10 400 4000),
                       Emit (MilestoneEscrowCreated ms_id 10 11 4000)], ms_id)"
  by (simp add: em_created_def escrow_run_def createMilestoneEscrow_def sol_defs Let_def
        state_after_def em0_def escrow_manager_init_def ms_id_def msg_value_def MAX_UINT256_def)

text \<open>
  The claim as stated fails where it says that exactly the sum is locked: the same four
  milestones created with 5000 of CRO attached take 5000 from the depositor, and the escrow
  records 4000, the most it will ever release.
\<close>

theorem milestone_escrow_accounts_counterexample:
  "succeeds (createMilestoneEscrow all_ok 10 5000 5 11 12 0
      [''design'', ''build'', ''test'', ''ship''] [500, 1500, 1500, 500] em0) \<and>
   outflow 0 10 (log_of (createMilestoneEscrow all_ok 10 5000 5 11 12 0
      [''design'', ''build'', ''test'', ''ship''] [500, 1500, 1500, 500] em0)) = 5000 \<and>
   inflow 0 400 (log_of (createMilestoneEscrow all_ok 10 5000 5 11 12 0
      [''design'', ''build'', ''test'', ''ship''] [500, 1500, 1500, 500] em0)) = 5000 \<and>
   totalAmount (milestoneEscrows (state_after em0 (createMilestoneEscrow all_ok 10 5000 5 11 12 0
      [''design'', ''build'', ''test'', ''ship''] [500, 1500, 1500, 500] em0)) ms_id) = 4000 \<and>
   sum_list (map ms_amount (milestones (milestoneEscrows (state_after em0
      (createMilestoneEscrow all_ok 10 5000 5 11 12 0
         [''design'', ''build'', ''test'', ''ship''] [500, 1500, 1500, 500] em0)) ms_id))) = 4000"
  by (simp add: createMilestoneEscrow_def sol_defs Let_def succeeds_def log_of_def
        state_after_def em0_def escrow_manager_init_def ms_id_def msg_value_def MAX_UINT256_def
        no_milestone_escrow_def)

text \<open>
  The concrete manager with the given milestones, released amount and status of its one escrow.
\<close>

definition em_with :: "Milestone list \<Rightarrow> nat \<Rightarrow> MilestoneEscrowStatus \<Rightarrow> escrow_manager" where
  "em_with ms r st =
     \<lparr>em_this = 400,
      milestoneEscrows = (\<lambda>i. no_milestone_escrow)(ms_id :=
         \<lparr>me_id = ms_id, depositor = 10, beneficiary = 11, arbiter = 12, me_token = 0,
          totalAmount = 4000, milestones = ms, releasedAmount = r, me_status = st\<rparr>),
      em_protocolFee = 50, em_feeRecipient = 2, em_nonce = 1\<rparr>"

definition stage :: "string \<Rightarrow> nat \<Rightarrow> bool \<Rightarrow> bool \<Rightarrow> Milestone" where
  "stage d a c r = \<lparr>ms_description = d, ms_amount = a, completed = c, released = r\<rparr>"

lemma stage_fields [simp]:
  "ms_amount (stage d a c r) = a" "completed (stage d a c r) = c" "released (stage d a c r) = r"
  "stage d a c r\<lparr>completed := c'\<rparr> = stage d a c' r"
  "stage d a c r\<lparr>released := r'\<rparr> = stage d a c r'"
  by (simp_all add: stage_def)

lemma em_created_with:
  "em_created = em_with [stage ''design'' 500 False False, stage ''build'' 1500 False False,
                         stage ''test'' 1500 False False, stage ''ship'' 500 False False] 0 Active"
  by (simp add: em_created_def escrow_run_def createMilestoneEscrow_def sol_defs Let_def
        state_after_def em0_def escrow_manager_init_def ms_id_def msg_value_def MAX_UINT256_def
        em_with_def stage_def no_milestone_escrow_def)

lemma complete_with:
  assumes "k < length ms" "\<not> completed (ms ! k)" "sender = 10 \<or> sender = 12"
  shows "escrow_step ok (em_with ms r Active) (CompleteMilestone sender ms_id k) =
           em_with (ms[k := (ms ! k)\<lparr>completed := True\<rparr>]) r Active"
  using assms
  by (auto simp add: completeMilestone_def sol_defs Let_def state_after_def em_with_def)

lemma release_with:
  assumes "k < length ms" "completed (ms ! k)" "\<not> released (ms ! k)"
    "ms_amount (ms ! k) \<le> 4000" "r \<le> 4000"
  shows "releaseMilestone all_ok sender ms_id k (em_with ms r Active) =
           Inr (em_with (ms[k := (ms ! k)\<lparr>released := True\<rparr>]) (r + ms_amount (ms ! k))
                  (if allReleased (ms[k := (ms ! k)\<lparr>released := True\<rparr>]) then Completed else Active),
                [Moved (Transfer 0 400 11
                   (ms_amount (ms ! k) - ms_amount (ms ! k) * 50 div 10000))]
                @ (if ms_amount (ms ! k) * 50 div 10000 > 0
                   then [Moved (Transfer 0 400 2 (ms_amount (ms ! k) * 50 div 10000))] else [])
                @ [Emit (MilestoneReleased ms_id k
                     (ms_amount (ms ! k) - ms_amount (ms ! k) * 50 div 10000))], ())"
proof -
  have a: "r + ms_amount (ms ! k) \<le> MAX_UINT256" "ms_amount (ms ! k) * 50 \<le> MAX_UINT256"
    using assms(4,5) by (simp_all add: MAX_UINT256_def)
  show ?thesis
    using assms(1-3) a
    by (simp add: releaseMilestone_def sol_defs Let_def em_with_def all_ok_def)
qed

lemma release_step_with:
  assumes "k < length ms" "completed (ms ! k)" "\<not> released (ms ! k)"
    "ms_amount (ms ! k) \<le> 4000" "r \<le> 4000"
  shows "escrow_step all_ok (em_with ms r Active) (ReleaseMilestone sender ms_id k) =
           em_with (ms[k := (ms ! k)\<lparr>released := True\<rparr>]) (r + ms_amount (ms ! k))
             (if allReleased (ms[k := (ms ! k)\<lparr>released := True\<rparr>]) then Completed else Active)"
  by (simp add: release_with[OF assms] state_after_def)

lemma em_three_with:
  "em_three = em_with [stage ''design'' 500 True True, stage ''build'' 1500 True True,
                       stage ''test'' 1500 True True, stage ''ship'' 500 True False] 3500 Active"
  by (simp add: em_three_def em_created_with escrow_run_def complete_with release_step_with
        del: escrow_step.simps)

lemma em_last_release_eq:
  "releaseMilestone all_ok 13 ms_id 3 em_three =
     Inr (em_with [stage ''design'' 500 True True, stage ''build'' 1500 True True,
                   stage ''test'' 1500 True True, stage ''ship'' 500 True True] 4000 Completed,
          [Moved (Transfer 0 400 11 498), Moved (Transfer 0 400 2 2),
           Emit (MilestoneReleased ms_id 3 498)], ())"
  by (simp add: em_three_with release_with)

lemma em_three_escrow:
  "milestoneEscrows em_three ms_id = \<lparr>me_id = ms_id, depositor = 10, beneficiary = 11,
     arbiter = 12, me_token = 0, totalAmount = 4000,
     milestones = [stage ''design'' 500 True True, stage ''build'' 1500 True True,
                   stage ''test'' 1500 True True, stage ''ship'' 500 True False],
     releasedAmount = 3500, me_status = Active\<rparr>"
  "em_protocolFee em_three = 50" "em_this em_three = 400" "em_feeRecipient em_three = 2"
  by (simp_all add: em_three_with em_with_def)

lemma em_last_release:
  "succeeds (releaseMilestone all_ok 13 ms_id 3 em_three)"
  by (simp add: em_last_release_eq succeeds_def)

text \<open>
  The escrow with milestones 500, 1500, 1500 and 500, created with 4000 of CRO attached,
  records 4000 and takes 4000; after three releases it is
  still Active with 3500 released; the fourth release pays 500 less the fee of 2 to the
  beneficiary and the escrow is Completed with 4000 released.
\<close>

theorem milestone_escrow_accounts_witness:
  "manager_ok em0 \<and> manager_ok em_three \<and>
   succeeds (createMilestoneEscrow all_ok 10 4000 5 11 12 0
      [''design'', ''build'', ''test'', ''ship''] [500, 1500, 1500, 500] em0) \<and>
   totalAmount (milestoneEscrows em_created ms_id) = 4000 \<and>
   outflow 0 10 (log_of (createMilestoneEscrow all_ok 10 4000 5 11 12 0
      [''design'', ''build'', ''test'', ''ship''] [500, 1500, 1500, 500] em0)) = 4000 \<and>
   me_status (milestoneEscrows em_three ms_id) = Active \<and>
   releasedAmount (milestoneEscrows em_three ms_id) = 3500 \<and>
   succeeds (releaseMilestone all_ok 13 ms_id 3 em_three) \<and>
   hd (log_of (releaseMilestone all_ok 13 ms_id 3 em_three)) = Moved (Transfer 0 400 11 498) \<and>
   me_status (milestoneEscrows (state_after em_three
      (releaseMilestone all_ok 13 ms_id 3 em_three)) ms_id) = Completed \<and>
   releasedAmount (milestoneEscrows (state_after em_three
      (releaseMilestone all_ok 13 ms_id 3 em_three)) ms_id) = 4000"
proof -
  have m0: "manager_ok em0" unfolding em0_def by (rule manager_ok_init)
  have m3: "manager_ok em_three"
    unfolding em_three_def em_created_def by (intro manager_ok_run m0)
  note A = milestone_escrow_accounts[OF m0, where ok = all_ok and sender = 10 and val = 4000
      and now = 5 and b = 11 and a = 12 and token = 0
      and ds = "[''design'', ''build'', ''test'', ''ship'']" and amounts = "[500, 1500, 1500, 500]"
      and ?s1.0 = em_created and i = ms_id, THEN conjunct1, THEN mp, OF em_created_eq]
  from A have t: "totalAmount (milestoneEscrows em_created ms_id) = 4000" by simp
  from A have o: "outflow 0 10 (log_of (createMilestoneEscrow all_ok 10 4000 5 11 12 0
      [''design'', ''build'', ''test'', ''ship''] [500, 1500, 1500, 500] em0)) = 4000"
    by (simp add: em_created_eq log_of_def)
  have c: "succeeds (createMilestoneEscrow all_ok 10 4000 5 11 12 0
      [''design'', ''build'', ''test'', ''ship''] [500, 1500, 1500, 500] em0)"
    unfolding em_created_eq succeeds_def by simp
  note B = milestone_escrow_accounts[OF m3, where ok = all_ok and sender = 13 and j = ms_id
      and k = 3, THEN conjunct2, THEN conjunct1, THEN mp, OF em_last_release_eq]
  from B have h: "hd (log_of (releaseMilestone all_ok 13 ms_id 3 em_three))
      = Moved (Transfer 0 400 11 498)"
    by (simp add: em_last_release_eq log_of_def)
  from B have ra: "releasedAmount (milestoneEscrows (state_after em_three
      (releaseMilestone all_ok 13 ms_id 3 em_three)) ms_id) = 4000"
    by (simp add: em_last_release_eq state_after_def em_three_escrow)
  have "\<forall>l<length (milestones (milestoneEscrows em_three ms_id)).
          l \<noteq> 3 \<longrightarrow> released (milestones (milestoneEscrows em_three ms_id) ! l)"
    by (simp add: em_three_escrow less_Suc_eq eval_nat_numeral)
  with B have st: "me_status (milestoneEscrows (state_after em_three
      (releaseMilestone all_ok 13 ms_id 3 em_three)) ms_id) = Completed"
    unfolding em_last_release_eq state_after_def by simp
  from m0 m3 c t o em_last_release h ra st show ?thesis
    by (simp add: em_three_escrow)
qed

end
